theory Spec2Isabelle
  imports Main "HOL-Library.AList"
begin

text \<open>
  A model of the background processing and caching core of the task-management backend:
  the error classifier and the worker of \<^verbatim>\<open>TaskProcessorService\<close>, the scanner of
  \<^verbatim>\<open>OverdueTasksService\<close> and the cache operations of \<^verbatim>\<open>RedisCacheService\<close>. What the
  services call but do not own (the queue library, the Redis client, the data store, the
  clock) appears as explicit state or as a parameter, with the failures it can produce.
  The definitions come first, the properties after them.
\<close>

section \<open>Strings\<close>

text \<open>
  JavaScript's \<^verbatim>\<open>s.includes(p)\<close>: \<open>p\<close> occurs in \<open>s\<close> as a contiguous,
  case-sensitive substring. \<open>starts_with s p\<close> tests an occurrence at position 0.
\<close>

fun starts_with :: "string \<Rightarrow> string \<Rightarrow> bool" where
  "starts_with s [] = True"
| "starts_with [] (p # ps) = False"
| "starts_with (c # cs) (p # ps) = (c = p \<and> starts_with cs ps)"

fun str_includes :: "string \<Rightarrow> string \<Rightarrow> bool" where
  "str_includes [] p = (p = [])"
| "str_includes (c # cs) p = (starts_with (c # cs) p \<or> str_includes cs p)"

text \<open>Decimal rendering of a non-negative integer, as a template literal renders it.\<close>

definition digit_char :: "nat \<Rightarrow> char" where
  "digit_char d = ''0123456789'' ! d"

fun decimal :: "nat \<Rightarrow> string" where
  "decimal n = (if 10 \<le> n then decimal (n div 10) else []) @ [digit_char (n mod 10)]"

section \<open>Thrown values and outcomes\<close>

text \<open>
  A thrown JavaScript value is an \<^verbatim>\<open>Error\<close> instance carrying a message, or some
  other value (for which \<^verbatim>\<open>error instanceof Error\<close> is false). An operation either
  throws or returns.
\<close>

datatype thrown = Error string | NonError

datatype 'a outcome = Throws thrown | Returns 'a

section \<open>Error classifier (TaskProcessorService.categorizeError)\<close>

record error_info =
  errType :: string
  message :: string
  isRetryable :: bool
  category :: string

text \<open>
  The checks are made in the order of the source: database, validation, not found,
  network, default. The source's second parameter (the job context) is not read by the
  function and is left out.
\<close>

definition categorizeError :: "thrown \<Rightarrow> error_info" where
  "categorizeError error =
     (let errorMessage = (case error of Error m \<Rightarrow> m | NonError \<Rightarrow> ''Unknown error'') in
      if str_includes errorMessage ''database'' \<or>
         str_includes errorMessage ''connection'' \<or>
         str_includes errorMessage ''timeout'' \<or>
         str_includes errorMessage ''ECONNREFUSED''
      then \<lparr>errType = ''DatabaseError'', message = errorMessage,
            isRetryable = True, category = ''infrastructure''\<rparr>
      else if str_includes errorMessage ''validation'' \<or>
         str_includes errorMessage ''required'' \<or>
         str_includes errorMessage ''invalid''
      then \<lparr>errType = ''ValidationError'', message = errorMessage,
            isRetryable = False, category = ''client''\<rparr>
      else if str_includes errorMessage ''not found'' \<or>
         str_includes errorMessage ''does not exist''
      then \<lparr>errType = ''NotFoundError'', message = errorMessage,
            isRetryable = False, category = ''client''\<rparr>
      else if str_includes errorMessage ''network'' \<or>
         str_includes errorMessage ''ENOTFOUND'' \<or>
         str_includes errorMessage ''ETIMEDOUT''
      then \<lparr>errType = ''NetworkError'', message = errorMessage,
            isRetryable = True, category = ''infrastructure''\<rparr>
      else \<lparr>errType = ''UnknownError'', message = errorMessage,
            isRetryable = True, category = ''unknown''\<rparr>)"

text \<open>The message the classifier reads from a thrown value.\<close>

definition message_of :: "thrown \<Rightarrow> string" where
  "message_of error = (case error of Error m \<Rightarrow> m | NonError \<Rightarrow> ''Unknown error'')"

text \<open>The signals of the first rule (storage, connection, timeout).\<close>

definition signals_infrastructure :: "string \<Rightarrow> bool" where
  "signals_infrastructure m \<longleftrightarrow>
     str_includes m ''database'' \<or> str_includes m ''connection'' \<or>
     str_includes m ''timeout'' \<or> str_includes m ''ECONNREFUSED''"

text \<open>A message that none of the four rules recognises.\<close>

definition unrecognized :: "string \<Rightarrow> bool" where
  "unrecognized m \<longleftrightarrow>
     \<not> signals_infrastructure m \<and>
     \<not> str_includes m ''validation'' \<and> \<not> str_includes m ''required'' \<and>
     \<not> str_includes m ''invalid'' \<and>
     \<not> str_includes m ''not found'' \<and> \<not> str_includes m ''does not exist'' \<and>
     \<not> str_includes m ''network'' \<and> \<not> str_includes m ''ENOTFOUND'' \<and>
     \<not> str_includes m ''ETIMEDOUT''"

section \<open>Job data\<close>

text \<open>
  A job's \<^verbatim>\<open>data\<close> is absent (null or undefined) or an object whose fields hold
  JavaScript values. \<open>truthy\<close> is JavaScript's truthiness, which \<^verbatim>\<open>!x\<close> negates;
  \<open>toString\<close> is the rendering of a value inside a template literal.
\<close>

datatype jsval = JUndefined | JNull | JBool bool | JNum int | JStr string

fun truthy :: "jsval \<Rightarrow> bool" where
  "truthy JUndefined = False"
| "truthy JNull = False"
| "truthy (JBool b) = b"
| "truthy (JNum n) = (n \<noteq> 0)"
| "truthy (JStr s) = (s \<noteq> [])"

text \<open>The rendering of an integral number, negative or not.\<close>

definition number_toString :: "int \<Rightarrow> string" where
  "number_toString i = (if 0 \<le> i then decimal (nat i) else CHR ''-'' # decimal (nat (- i)))"

fun toString :: "jsval \<Rightarrow> string" where
  "toString JUndefined = ''undefined''"
| "toString JNull = ''null''"
| "toString (JBool b) = (if b then ''true'' else ''false'')"
| "toString (JNum n) = number_toString n"
| "toString (JStr s) = s"

type_synonym jsobject = "(string \<times> jsval) list"

definition field :: "jsobject \<Rightarrow> string \<Rightarrow> jsval" where
  "field d k = (case map_of d k of None \<Rightarrow> JUndefined | Some v \<Rightarrow> v)"

text \<open>\<^verbatim>\<open>errors.join(', ')\<close>\<close>

fun join :: "string list \<Rightarrow> string" where
  "join [] = []"
| "join [x] = x"
| "join (x # y # ys) = x @ '', '' @ join (y # ys)"

section \<open>Worker (TaskProcessorService)\<close>

record job =
  jobId :: string
  jobName :: string
  jobData :: "jsobject option"
  attemptsMade :: nat
  attempts :: "nat option"

text \<open>The in-process counters, and the branch of the catch block that was logged.\<close>

datatype disposition = WillBeRetried | NonRetryable | Exhausted

record worker =
  processed :: nat
  failed :: nat
  totalProcessingTime :: nat
  logged :: "(error_info \<times> disposition) list"

record process_result =
  success :: bool
  result :: jsobject
  processingTime :: nat

text \<open>
  \<^verbatim>\<open>tasksService.updateStatus\<close> reads and writes the data store, which is outside the
  worker: it is a parameter. It returns the updated row (id, status, title), returns null
  when the row cannot be read back, or throws.
\<close>

type_synonym update_status = "jsval \<Rightarrow> jsval \<Rightarrow> jsobject option outcome"

definition validateJobData :: "job \<Rightarrow> bool \<times> string list" where
  "validateJobData job =
     (case jobData job of
        None \<Rightarrow> (False, [''Job data is missing''])
      | Some d \<Rightarrow>
          (let errors =
             (if jobName job = ''task-status-update'' then
                (if \<not> truthy (field d ''taskId'')
                 then [''taskId is required for status update''] else []) @
                (if \<not> truthy (field d ''status'')
                 then [''status is required for status update''] else [])
              else if jobName job = ''task-created'' then
                (if \<not> truthy (field d ''taskId'')
                 then [''taskId is required for task creation''] else [])
              else if jobName job = ''overdue-tasks-notification'' then
                (if \<not> truthy (field d ''taskId'')
                 then [''taskId is required for overdue notification''] else []) @
                (if \<not> truthy (field d ''title'')
                 then [''title is required for overdue notification''] else []) @
                (if \<not> truthy (field d ''dueDate'')
                 then [''dueDate is required for overdue notification''] else [])
              else [])
           in (errors = [], errors)))"

definition handleStatusUpdate :: "update_status \<Rightarrow> jsobject \<Rightarrow> jsobject outcome" where
  "handleStatusUpdate updateStatus d =
     (let taskId = field d ''taskId''; status = field d ''status'';
          previousStatus = field d ''previousStatus'' in
      if \<not> truthy taskId then Throws (Error ''Task ID is required'')
      else if \<not> truthy status then Throws (Error ''Status is required'')
      else
        (case updateStatus taskId status of
           Returns (Some task) \<Rightarrow>
             Returns [(''success'', JBool True), (''taskId'', field task ''id''),
                      (''previousStatus'', previousStatus),
                      (''newStatus'', field task ''status''), (''title'', field task ''title'')]
         | Returns None \<Rightarrow>
             Throws (Error (''Failed to update task '' @ toString taskId @ '' status: '' @
                            ''Cannot read properties of null (reading 'status')''))
         | Throws e \<Rightarrow>
             Throws (Error (''Failed to update task '' @ toString taskId @ '' status: '' @
                            (case e of Error m \<Rightarrow> m | NonError \<Rightarrow> ''Unknown error'')))))"

definition handleTaskCreated :: "jsobject \<Rightarrow> jsobject outcome" where
  "handleTaskCreated d =
     Returns [(''success'', JBool True), (''taskId'', field d ''taskId''),
              (''status'', field d ''status''),
              (''message'', JStr ''Task creation processed'')]"

definition handleOverdueTasks :: "jsobject \<Rightarrow> jsobject outcome" where
  "handleOverdueTasks d =
     Returns [(''success'', JBool True), (''taskId'', field d ''taskId''),
              (''notificationType'', JStr ''overdue''), (''overdueBy'', field d ''overdueBy''),
              (''message'', JStr (''Overdue notification processed for task '' @
                                   toString (field d ''taskId'')))]"

text \<open>The body of the \<^verbatim>\<open>try\<close> block of \<^verbatim>\<open>process\<close>: validation, then dispatch by name.\<close>

definition attempt :: "update_status \<Rightarrow> job \<Rightarrow> jsobject outcome" where
  "attempt updateStatus job =
     (let validationResult = validateJobData job in
      if \<not> fst validationResult
      then Throws (Error (''Job validation failed: '' @ join (snd validationResult)))
      else
        (case jobData job of
           None \<Rightarrow> Throws (Error (''Job validation failed: '' @ join (snd validationResult)))
         | Some d \<Rightarrow>
            if jobName job = ''task-status-update'' then handleStatusUpdate updateStatus d
            else if jobName job = ''task-created'' then handleTaskCreated d
            else if jobName job = ''overdue-tasks-notification'' then handleOverdueTasks d
            else Throws (Error (''Unknown job type: '' @ jobName job))))"

definition maxAttempts :: "job \<Rightarrow> nat" where
  "maxAttempts job = (case attempts job of None \<Rightarrow> 1 | Some n \<Rightarrow> if n = 0 then 1 else n)"

text \<open>
  \<^verbatim>\<open>process\<close>, with the elapsed time of the attempt (the difference of the two clock
  readings) as a parameter. On success the counters \<open>processed\<close> and
  \<open>totalProcessingTime\<close> grow; on failure \<open>failed\<close> grows, the error is classified and
  logged, and each of the three branches throws the error it caught.
\<close>

definition process :: "update_status \<Rightarrow> nat \<Rightarrow> job \<Rightarrow> worker \<Rightarrow> process_result outcome \<times> worker" where
  "process updateStatus elapsed job w =
     (let attemptNumber = attemptsMade job + 1 in
      case attempt updateStatus job of
        Returns r \<Rightarrow>
          (Returns \<lparr>success = True, result = r, processingTime = elapsed\<rparr>,
           w\<lparr>processed := processed w + 1,
             totalProcessingTime := totalProcessingTime w + elapsed\<rparr>)
      | Throws error \<Rightarrow>
          (let w1 = w\<lparr>failed := failed w + 1\<rparr>;
               errorInfo = categorizeError error in
           if isRetryable errorInfo \<and> attemptNumber < maxAttempts job
           then (Throws error, w1\<lparr>logged := logged w1 @ [(errorInfo, WillBeRetried)]\<rparr>)
           else if \<not> isRetryable errorInfo
           then (Throws error, w1\<lparr>logged := logged w1 @ [(errorInfo, NonRetryable)]\<rparr>)
           else (Throws error, w1\<lparr>logged := logged w1 @ [(errorInfo, Exhausted)]\<rparr>)))"

subsection \<open>The queue runtime\<close>

text \<open>
  The worker runs inside the queue library, which is not code of the repository. The
  library sees of a failed attempt only that \<^verbatim>\<open>process\<close> threw: it delivers the job
  again, with \<open>attemptsMade\<close> incremented, as long as fewer than \<^verbatim>\<open>opts.attempts\<close>
  attempts have been made, and moves it to the failed set otherwise. \<open>deliver\<close> runs a
  job to its terminal state and counts the executions of \<^verbatim>\<open>process\<close>.
\<close>

datatype job_state = Completed | Failed

function deliver :: "update_status \<Rightarrow> nat \<Rightarrow> job \<Rightarrow> worker \<Rightarrow> job_state \<times> nat \<times> worker" where
  "deliver updateStatus elapsed job w =
     (case process updateStatus elapsed job w of
        (Returns r, w') \<Rightarrow> (Completed, 1, w')
      | (Throws e, w') \<Rightarrow>
          if attemptsMade job + 1 < maxAttempts job
          then (case deliver updateStatus elapsed (job\<lparr>attemptsMade := attemptsMade job + 1\<rparr>) w' of
                  (st, n, w'') \<Rightarrow> (st, n + 1, w''))
          else (Failed, 1, w'))"
  by pat_completeness auto
termination
  by (relation "measure (\<lambda>(u, el, job, w). maxAttempts job - attemptsMade job)")
     (auto simp: maxAttempts_def)

declare deliver.simps [simp del]

section \<open>Overdue scanner (OverdueTasksService)\<close>

text \<open>
  Times are milliseconds since the epoch. Of the status enumeration the three members
  that the services name are modelled. A task's \<open>dueDate\<close> is optional.
\<close>

datatype TaskStatus = PENDING | IN_PROGRESS | COMPLETED

record task =
  task_id :: string
  title :: string
  dueDate :: "int option"
  status :: TaskStatus
  userId :: string

definition BATCH_SIZE :: nat where
  "BATCH_SIZE = 100"

definition MAX_RETRIES :: nat where
  "MAX_RETRIES = 3"

definition calculateOverdueDuration :: "int \<Rightarrow> int \<Rightarrow> string" where
  "calculateOverdueDuration now due =
     (let diffMs = now - due;
          diffHours = diffMs div (1000 * 60 * 60);
          diffDays = diffHours div 24 in
      if diffDays > 0
      then number_toString diffDays @ '' day'' @ (if diffDays > 1 then ''s'' else [])
      else number_toString diffHours @ '' hour'' @ (if diffHours > 1 then ''s'' else []))"

subsection \<open>The job queue\<close>

text \<open>
  The queue is the library's. \<^verbatim>\<open>add\<close> appends a job, unless a job with the same
  \<^verbatim>\<open>jobId\<close> is already held, in which case nothing is added; it throws when the broker
  cannot be reached. \<open>addFaults\<close> schedules the outcomes of the coming calls
  (\<open>True\<close>: the call throws); past the end of the schedule every call succeeds.
\<close>

record queued_job =
  qName :: string
  qTaskId :: string
  qTitle :: string
  qDueDate :: int
  qStatus :: TaskStatus
  qUserId :: string
  overdueBy :: string
  qAttempts :: nat
  qBackoffDelay :: nat
  qPriority :: nat
  qJobId :: string

record queue =
  jobs :: "queued_job list"
  addFaults :: "bool list"

definition queue_add :: "queued_job \<Rightarrow> queue \<Rightarrow> unit outcome \<times> queue" where
  "queue_add j q =
     (let fault = (case addFaults q of [] \<Rightarrow> False | f # fs \<Rightarrow> f);
          q1 = q\<lparr>addFaults := tl (addFaults q)\<rparr> in
      if fault then (Throws (Error ''Connection is closed.''), q1)
      else if qJobId j \<in> set (map qJobId (jobs q1)) then (Returns (), q1)
      else (Returns (), q1\<lparr>jobs := jobs q1 @ [j]\<rparr>))"

text \<open>
  \<^verbatim>\<open>processBatch\<close>, with the clock reading \<open>t\<close> of the batch. Each task is enqueued
  inside its own \<^verbatim>\<open>try\<close>: a failure is recorded in \<open>failedTasks\<close> and the batch goes
  on. A task without due date fails there, since \<^verbatim>\<open>dueDate.getTime()\<close> throws.
\<close>

fun enqueue_each :: "int \<Rightarrow> task list \<Rightarrow> nat \<Rightarrow> string list \<Rightarrow> queue \<Rightarrow> nat \<times> string list \<times> queue" where
  "enqueue_each t [] queuedCount failedTasks q = (queuedCount, failedTasks, q)"
| "enqueue_each t (task # tasks) queuedCount failedTasks q =
     (case dueDate task of
        None \<Rightarrow> enqueue_each t tasks queuedCount (failedTasks @ [task_id task]) q
      | Some due \<Rightarrow>
          (case queue_add
                  \<lparr>qName = ''overdue-tasks-notification'',
                   qTaskId = task_id task, qTitle = title task, qDueDate = due,
                   qStatus = status task, qUserId = userId task,
                   overdueBy = calculateOverdueDuration t due,
                   qAttempts = MAX_RETRIES, qBackoffDelay = 5000, qPriority = 10,
                   qJobId = ''overdue-'' @ task_id task @ ''-'' @ number_toString t\<rparr> q of
             (Returns u, q') \<Rightarrow> enqueue_each t tasks (queuedCount + 1) failedTasks q'
           | (Throws e, q') \<Rightarrow> enqueue_each t tasks queuedCount (failedTasks @ [task_id task]) q'))"

definition processBatch :: "int \<Rightarrow> task list \<Rightarrow> queue \<Rightarrow> nat \<times> queue" where
  "processBatch t overdueTasks q =
     (case enqueue_each t overdueTasks 0 [] q of (queuedCount, failedTasks, q') \<Rightarrow> (queuedCount, q'))"



subsection \<open>The scan\<close>

text \<open>
  The data store is outside the scanner. \<open>rows\<close> are its tasks, unchanged during a run;
  \<open>findFails k\<close> tells whether the query at offset \<open>k\<close> throws; \<open>batchClock k\<close> is the
  clock reading when the batch fetched at offset \<open>k\<close> is processed. \<open>repo_find\<close> is the
  query of the source: due date strictly before \<open>now\<close>, status pending or in progress,
  oldest due date first, \<open>take\<close> rows after skipping \<open>skip\<close>.
\<close>

record scan_env =
  rows :: "task list"
  findFails :: "nat \<Rightarrow> bool"
  batchClock :: "nat \<Rightarrow> int"

definition is_overdue :: "int \<Rightarrow> task \<Rightarrow> bool" where
  "is_overdue now t \<longleftrightarrow>
     (case dueDate t of None \<Rightarrow> False | Some d \<Rightarrow> d < now) \<and>
     (status t = PENDING \<or> status t = IN_PROGRESS)"

definition matching :: "scan_env \<Rightarrow> int \<Rightarrow> task list" where
  "matching env now =
     sort_key (\<lambda>t. case dueDate t of None \<Rightarrow> 0 | Some d \<Rightarrow> d) (filter (is_overdue now) (rows env))"

definition repo_find :: "scan_env \<Rightarrow> int \<Rightarrow> nat \<Rightarrow> nat \<Rightarrow> task list outcome" where
  "repo_find env now tk skip =
     (if findFails env skip then Throws (Error ''Connection terminated unexpectedly'')
      else Returns (take tk (drop skip (matching env now))))"

text \<open>
  The loop of \<^verbatim>\<open>checkOverdueTasks\<close>. \<^verbatim>\<open>this.processBatch\<close> is looked up at each call,
  so the batch function is a parameter \<open>pb\<close>; it threads a value \<open>c\<close> of its own (what a
  replacement installed by the manual trigger captures). Beside the source's variables
  the state records the number of queries made and, for each page read, its offset and
  length.
\<close>

record scan_state =
  totalProcessed :: nat
  totalQueued :: nat
  offset :: nat
  fetches :: nat
  pages :: "(nat \<times> nat) list"

type_synonym 'c batch_fn = "int \<Rightarrow> task list \<Rightarrow> queue \<Rightarrow> 'c \<Rightarrow> nat \<times> queue \<times> 'c"

function scan_loop :: "'c batch_fn \<Rightarrow> scan_env \<Rightarrow> int \<Rightarrow> scan_state \<Rightarrow> queue \<Rightarrow> 'c \<Rightarrow>
    unit outcome \<times> scan_state \<times> queue \<times> 'c" where
  "scan_loop pb env now s q c =
     (case repo_find env now BATCH_SIZE (offset s) of
        Throws e \<Rightarrow> (Throws e, s\<lparr>fetches := fetches s + 1\<rparr>, q, c)
      | Returns overdueTasks \<Rightarrow>
          (let s1 = s\<lparr>fetches := fetches s + 1,
                      pages := pages s @ [(offset s, length overdueTasks)]\<rparr> in
           if length overdueTasks = 0 then (Returns (), s1, q, c)
           else
             (let r = pb (batchClock env (offset s)) overdueTasks q c;
                  s2 = s1\<lparr>totalProcessed := totalProcessed s1 + length overdueTasks,
                          totalQueued := totalQueued s1 + fst r,
                          offset := offset s1 + BATCH_SIZE\<rparr> in
              if length overdueTasks < BATCH_SIZE then (Returns (), s2, fst (snd r), snd (snd r))
              else scan_loop pb env now s2 (fst (snd r)) (snd (snd r)))))"
  by pat_completeness auto
termination
  by (relation "measure (\<lambda>(pb, env, now, s, q, c). length (matching env now) - offset s)")
     (auto simp: repo_find_def BATCH_SIZE_def split: if_splits)

declare scan_loop.simps [simp del]

definition initial_scan_state :: scan_state where
  "initial_scan_state = \<lparr>totalProcessed = 0, totalQueued = 0, offset = 0, fetches = 0, pages = []\<rparr>"

text \<open>
  \<^verbatim>\<open>checkOverdueTasks\<close> catches whatever the loop throws and returns nothing; the model
  returns the final state, the queue and the batch function's value for observation.
\<close>

definition checkOverdueTasks :: "'c batch_fn \<Rightarrow> scan_env \<Rightarrow> int \<Rightarrow> queue \<Rightarrow> 'c \<Rightarrow> scan_state \<times> queue \<times> 'c" where
  "checkOverdueTasks pb env now q c = snd (scan_loop pb env now initial_scan_state q c)"

text \<open>The scheduled run uses \<^verbatim>\<open>processBatch\<close> itself.\<close>

definition plainProcessBatch :: "unit batch_fn" where
  "plainProcessBatch t tasks q u = (case processBatch t tasks q of (queued, q') \<Rightarrow> (queued, q', u))"

text \<open>
  \<^verbatim>\<open>triggerOverdueCheck\<close> replaces \<^verbatim>\<open>processBatch\<close> by a function that adds the page
  length and the queued count to two variables of its own, runs the same
  \<^verbatim>\<open>checkOverdueTasks\<close>, and returns the two variables as \<open>(processed, queued)\<close>.
\<close>

definition countingProcessBatch :: "(nat \<times> nat) batch_fn" where
  "countingProcessBatch t tasks q c =
     (case c of (processedSum, queuedSum) \<Rightarrow>
        (case processBatch t tasks q of (queued, q') \<Rightarrow>
           (queued, q', (processedSum + length tasks, queuedSum + queued))))"

definition triggerOverdueCheck :: "scan_env \<Rightarrow> int \<Rightarrow> queue \<Rightarrow> (nat \<times> nat) \<times> queue" where
  "triggerOverdueCheck env now q =
     (case checkOverdueTasks countingProcessBatch env now q (0, 0) of
        (s, q', c) \<Rightarrow> (c, q'))"

section \<open>Cache store (RedisCacheService)\<close>

subsection \<open>The Redis client\<close>

text \<open>
  The store and its client are the library's. An entry holds a serialized value and the
  time (in seconds) at which it expires; an entry is live while the clock is before that
  time. \<open>faults\<close> schedules the outcomes of the coming commands (\<open>True\<close>: the command
  throws); past the end of the schedule every command succeeds.

  The service creates the client with the option \<^verbatim>\<open>keyPrefix\<close>. The client prepends
  the prefix to the key arguments of a command (\<^verbatim>\<open>setex\<close>, \<^verbatim>\<open>get\<close>, \<^verbatim>\<open>del\<close>). The
  argument of \<^verbatim>\<open>keys\<close> is a pattern, not a key: the client sends it as it is, and the
  reply holds the keys as the store names them.
\<close>

record redis =
  entries :: "(string \<times> string \<times> int) list"
  clock :: int
  faults :: "bool list"
  keyPrefix :: string

definition live :: "redis \<Rightarrow> (string \<times> string \<times> int) list" where
  "live r = filter (\<lambda>(k, v, e). clock r < e) (entries r)"

definition next_fault :: "redis \<Rightarrow> bool \<times> redis" where
  "next_fault r =
     ((case faults r of [] \<Rightarrow> False | f # fs \<Rightarrow> f), r\<lparr>entries := live r, faults := tl (faults r)\<rparr>)"

definition connection_error :: thrown where
  "connection_error = Error ''Connection is closed.''"

text \<open>
  The store's pattern match of \<^verbatim>\<open>KEYS\<close>, pattern first: \<^verbatim>\<open>*\<close> matches any run of
  characters, \<^verbatim>\<open>?\<close> one character, a backslash takes the next character literally, any
  other character matches itself. Bracketed character classes are not modelled; no
  pattern of the repository has one.
\<close>

fun glob_match :: "string \<Rightarrow> string \<Rightarrow> bool" where
  "glob_match [] s = (s = [])"
| "glob_match (p # ps) [] = (p = CHR ''*'' \<and> glob_match ps [])"
| "glob_match (p # ps) (c # cs) =
     (if p = CHR ''*'' then glob_match ps (c # cs) \<or> glob_match (p # ps) cs
      else if p = CHR ''?'' then glob_match ps cs
      else if p = CHR 0x5C \<and> ps \<noteq> [] then c = hd ps \<and> glob_match (tl ps) cs
      else c = p \<and> glob_match ps cs)"

definition redis_setex :: "string \<Rightarrow> int \<Rightarrow> string \<Rightarrow> redis \<Rightarrow> unit outcome \<times> redis" where
  "redis_setex key seconds v r =
     (case next_fault r of (fault, r1) \<Rightarrow>
        if fault then (Throws connection_error, r1)
        else if seconds \<le> 0 then (Throws (Error ''ERR invalid expire time in 'setex' command''), r1)
        else (Returns (),
              r1\<lparr>entries := AList.update (keyPrefix r1 @ key) (v, clock r1 + seconds) (entries r1)\<rparr>))"

definition redis_get :: "string \<Rightarrow> redis \<Rightarrow> string option outcome \<times> redis" where
  "redis_get key r =
     (case next_fault r of (fault, r1) \<Rightarrow>
        if fault then (Throws connection_error, r1)
        else (Returns (map_option fst (map_of (entries r1) (keyPrefix r1 @ key))), r1))"

fun del_each :: "string list \<Rightarrow> nat \<Rightarrow> (string \<times> string \<times> int) list \<Rightarrow> nat \<times> (string \<times> string \<times> int) list" where
  "del_each [] n es = (n, es)"
| "del_each (k # ks) n es =
     (if k \<in> fst ` set es then del_each ks (n + 1) (AList.delete k es) else del_each ks n es)"

definition redis_del :: "string list \<Rightarrow> redis \<Rightarrow> nat outcome \<times> redis" where
  "redis_del keys r =
     (case next_fault r of (fault, r1) \<Rightarrow>
        if fault then (Throws connection_error, r1)
        else (case del_each (map (\<lambda>k. keyPrefix r1 @ k) keys) 0 (entries r1) of
                (n, es) \<Rightarrow> (Returns n, r1\<lparr>entries := es\<rparr>)))"

definition redis_keys :: "string \<Rightarrow> redis \<Rightarrow> string list outcome \<times> redis" where
  "redis_keys pattern r =
     (case next_fault r of (fault, r1) \<Rightarrow>
        if fault then (Throws connection_error, r1)
        else (Returns (filter (glob_match pattern) (map fst (entries r1))), r1))"

subsection \<open>The service\<close>

text \<open>
  A cached value is \<open>None\<close> (JavaScript's \<^verbatim>\<open>null\<close>) or \<open>Some x\<close>. \<^verbatim>\<open>JSON.stringify\<close>
  and \<^verbatim>\<open>JSON.parse\<close> belong to the language: they are the two fields of a codec, and
  either may throw.
\<close>

record 'a codec =
  stringify :: "'a option \<Rightarrow> string outcome"
  parse :: "string \<Rightarrow> 'a option outcome"

record cache_options =
  ttl :: "int option"
  namespace :: "string option"

definition defaultTtl :: int where
  "defaultTtl = 300"

text \<open>The client the service creates in \<^verbatim>\<open>onModuleInit\<close>, on a store at time \<open>now\<close>.\<close>

definition onModuleInit :: "(string \<times> string \<times> int) list \<Rightarrow> int \<Rightarrow> bool list \<Rightarrow> redis" where
  "onModuleInit es now fs = \<lparr>entries = es, clock = now, faults = fs, keyPrefix = ''cache:''\<rparr>"

definition buildKey :: "string \<Rightarrow> string option \<Rightarrow> string" where
  "buildKey key ns =
     (case ns of None \<Rightarrow> key | Some n \<Rightarrow> if n = [] then key else n @ '':'' @ key)"

definition cache_set :: "'a codec \<Rightarrow> string \<Rightarrow> 'a option \<Rightarrow> cache_options \<Rightarrow> redis \<Rightarrow> unit outcome \<times> redis" where
  "cache_set cd key v options r =
     (let finalKey = buildKey key (namespace options);
          seconds = (case ttl options of None \<Rightarrow> defaultTtl
                     | Some t \<Rightarrow> if t = 0 then defaultTtl else t) in
      case stringify cd v of
        Throws e \<Rightarrow> (Returns (), r)
      | Returns serializedValue \<Rightarrow>
          (case redis_setex finalKey seconds serializedValue r of
             (Throws e, r1) \<Rightarrow> (Returns (), r1)
           | (Returns u, r1) \<Rightarrow> (Returns (), r1)))"

definition cache_get :: "'a codec \<Rightarrow> string \<Rightarrow> string option \<Rightarrow> redis \<Rightarrow> 'a option outcome \<times> redis" where
  "cache_get cd key ns r =
     (let finalKey = buildKey key ns in
      case redis_get finalKey r of
        (Throws e, r1) \<Rightarrow> (Returns None, r1)
      | (Returns None, r1) \<Rightarrow> (Returns None, r1)
      | (Returns (Some v), r1) \<Rightarrow>
          if v = [] then (Returns None, r1)
          else (case parse cd v of
                  Throws e \<Rightarrow> (Returns None, r1)
                | Returns x \<Rightarrow> (Returns x, r1)))"

definition deletePattern :: "string \<Rightarrow> string option \<Rightarrow> redis \<Rightarrow> nat outcome \<times> redis" where
  "deletePattern pattern ns r =
     (let finalPattern = buildKey pattern ns in
      case redis_keys finalPattern r of
        (Throws e, r1) \<Rightarrow> (Returns 0, r1)
      | (Returns keys, r1) \<Rightarrow>
          if length keys = 0 then (Returns 0, r1)
          else (case redis_del keys r1 of
                  (Throws e, r2) \<Rightarrow> (Returns 0, r2)
                | (Returns n, r2) \<Rightarrow> (Returns n, r2)))"

text \<open>
  \<^verbatim>\<open>getOrSet\<close>. The factory is the caller's: it runs in the caller's world \<open>w\<close>, which
  it may change, and returns a value or throws.
\<close>

definition getOrSet :: "'a codec \<Rightarrow> string \<Rightarrow> ('w \<Rightarrow> 'a option outcome \<times> 'w) \<Rightarrow> cache_options \<Rightarrow>
    redis \<Rightarrow> 'w \<Rightarrow> 'a option outcome \<times> redis \<times> 'w" where
  "getOrSet cd key factory options r w =
     (case cache_get cd key (namespace options) r of
        (Throws e, r1) \<Rightarrow> (Throws e, r1, w)
      | (Returns cached, r1) \<Rightarrow>
          if cached \<noteq> None then (Returns cached, r1, w)
          else
            (case factory w of
               (Throws e, w1) \<Rightarrow> (Throws e, r1, w1)
             | (Returns v, w1) \<Rightarrow>
                 (case cache_set cd key v options r1 of
                    (Throws e, r2) \<Rightarrow> (Throws e, r2, w1)
                  | (Returns u, r2) \<Rightarrow> (Returns v, r2, w1))))"

text \<open>
  A codec for documents that are \<^verbatim>\<open>null\<close> or a non-negative integer, used to run the
  service on concrete inputs.
\<close>

definition is_digit :: "char \<Rightarrow> bool" where
  "is_digit c \<longleftrightarrow> (48::nat) \<le> of_char c \<and> (of_char c :: nat) \<le> 57"

definition nat_of_digits :: "string \<Rightarrow> nat" where
  "nat_of_digits s = foldl (\<lambda>n c. 10 * n + (of_char c - 48)) (0::nat) s"

definition number_codec :: "nat codec" where
  "number_codec =
     \<lparr>stringify = (\<lambda>v. case v of None \<Rightarrow> Returns ''null'' | Some n \<Rightarrow> Returns (decimal n)),
      parse = (\<lambda>s. if s = ''null'' then Returns None
                    else if s \<noteq> [] \<and> list_all is_digit s then Returns (Some (nat_of_digits s))
                    else Throws (Error ''Unexpected token''))\<rparr>"

text \<open>The expiry \<^verbatim>\<open>set\<close> asks for: \<^verbatim>\<open>options.ttl || this.defaultTtl\<close>.\<close>

definition set_seconds :: "cache_options \<Rightarrow> int" where
  "set_seconds options = (case ttl options of None \<Rightarrow> defaultTtl | Some t \<Rightarrow> if t = 0 then defaultTtl else t)"

subsection \<open>Reading the cache as a caller does\<close>

text \<open>
  \<open>null_entry cd K r\<close>: under the stored name \<open>K\<close> the store holds no live entry, or
  a live entry whose text is empty, does not parse, or parses to \<^verbatim>\<open>null\<close>.
\<close>

definition null_entry :: "'a codec \<Rightarrow> string \<Rightarrow> redis \<Rightarrow> bool" where
  "null_entry cd K r \<longleftrightarrow>
     (case map_of (live r) K of
        None \<Rightarrow> True
      | Some (s, e) \<Rightarrow>
          s = [] \<or> (case parse cd s of Throws x \<Rightarrow> True | Returns v \<Rightarrow> v = None))"

text \<open>
  A caller that calls \<^verbatim>\<open>getOrSet\<close> with the same key, factory and options once per
  element of a list; before each call the clock advances by the first component and the
  schedule of faults is replaced by the second.
\<close>

fun getOrSet_calls :: "'a codec \<Rightarrow> string \<Rightarrow> ('w \<Rightarrow> 'a option outcome \<times> 'w) \<Rightarrow> cache_options \<Rightarrow>
    (nat \<times> bool list) list \<Rightarrow> redis \<Rightarrow> 'w \<Rightarrow> redis \<times> 'w" where
  "getOrSet_calls cd key factory options [] r w = (r, w)"
| "getOrSet_calls cd key factory options ((dt, fs) # calls) r w =
     (case getOrSet cd key factory options (r\<lparr>clock := clock r + int dt, faults := fs\<rparr>) w of
        (res, r', w') \<Rightarrow> getOrSet_calls cd key factory options calls r' w')"

section \<open>Concrete inputs\<close>

text \<open>A status-update job whose data lacks both required fields, offered with three attempts.\<close>

definition malformed_status_job :: job where
  "malformed_status_job =
     \<lparr>jobId = ''42'', jobName = ''task-status-update'', jobData = Some [],
      attemptsMade = 0, attempts = Some 3\<rparr>"

text \<open>A job of a kind the worker does not implement, offered with three attempts.\<close>

definition unknown_kind_job :: job where
  "unknown_kind_job =
     \<lparr>jobId = ''43'', jobName = ''send-email'', jobData = Some [],
      attemptsMade = 0, attempts = Some 3\<rparr>"

definition fresh_worker :: worker where
  "fresh_worker = \<lparr>processed = 0, failed = 0, totalProcessingTime = 0, logged = []\<rparr>"

definition no_row :: update_status where
  "no_row tid st = Throws (Error ''Task not found'')"

text \<open>An overdue task, due at time 0, and a queue that holds nothing and never fails.\<close>

definition late_task :: task where
  "late_task =
     \<lparr>task_id = ''t1'', title = ''Pay rent'', dueDate = Some 0, status = PENDING, userId = ''u1''\<rparr>"

definition empty_queue :: queue where
  "empty_queue = \<lparr>jobs = [], addFaults = []\<rparr>"

text \<open>
  A store of \<open>n\<close> pending tasks, due at the times 0, ..., \<open>n - 1\<close>, whose queries
  never fail.
\<close>

definition overdue_store :: "nat \<Rightarrow> scan_env" where
  "overdue_store n =
     \<lparr>rows = map (\<lambda>i. \<lparr>task_id = decimal i, title = ''task'', dueDate = Some (int i),
                          status = PENDING, userId = ''u1''\<rparr>) [0..<n],
      findFails = (\<lambda>k. False),
      batchClock = (\<lambda>k. 1000 + int k)\<rparr>"

section \<open>Properties of the strings\<close>

lemma starts_with_iff: "starts_with s p \<longleftrightarrow> (\<exists>r. s = p @ r)"
  by (induction s p rule: starts_with.induct) auto

lemma str_includes_iff: "str_includes s p \<longleftrightarrow> (\<exists>a b. s = a @ p @ b)"
proof (induction s)
  case Nil
  then show ?case by simp
next
  case (Cons c cs)
  show ?case
  proof
    assume "str_includes (c # cs) p"
    then consider "starts_with (c # cs) p" | "str_includes cs p" by auto
    then show "\<exists>a b. c # cs = a @ p @ b"
    proof cases
      case 1
      then obtain r where "c # cs = p @ r" by (auto simp: starts_with_iff)
      then have "c # cs = [] @ p @ r" by simp
      then show ?thesis by blast
    next
      case 2
      then obtain a b where "cs = a @ p @ b" using Cons.IH by blast
      then have "c # cs = (c # a) @ p @ b" by simp
      then show ?thesis by blast
    qed
  next
    assume "\<exists>a b. c # cs = a @ p @ b"
    then obtain a b where ab: "c # cs = a @ p @ b" by blast
    show "str_includes (c # cs) p"
    proof (cases a)
      case Nil
      with ab have "starts_with (c # cs) p" by (auto simp: starts_with_iff)
      then show ?thesis by simp
    next
      case (Cons x xs)
      with ab have "cs = xs @ p @ b" by simp
      then have "str_includes cs p" using Cons.IH by blast
      then show ?thesis by simp
    qed
  qed
qed

text \<open>The decimal rendering determines the number.\<close>

lemma digit_char_inj:
  "d < 10 \<Longrightarrow> d' < 10 \<Longrightarrow> digit_char d = digit_char d' \<Longrightarrow> d = d'"
  unfolding digit_char_def
  by (subst (asm) nth_eq_iff_index_eq) simp_all

lemma decimal_nonempty: "decimal n \<noteq> []"
  by (subst decimal.simps) simp

lemma decimal_inj: "decimal n = decimal m \<Longrightarrow> n = m"
proof (induction n arbitrary: m rule: decimal.induct)
  case (1 n)
  from "1.prems" have eq:
    "(if 10 \<le> n then decimal (n div 10) else []) @ [digit_char (n mod 10)] =
     (if 10 \<le> m then decimal (m div 10) else []) @ [digit_char (m mod 10)]"
    by (subst (asm) decimal.simps[of n], subst (asm) decimal.simps[of m])
  then have front: "(if 10 \<le> n then decimal (n div 10) else []) = (if 10 \<le> m then decimal (m div 10) else [])"
    and last: "digit_char (n mod 10) = digit_char (m mod 10)"
    by simp_all
  have md: "n mod 10 = m mod 10"
    using last by (intro digit_char_inj) simp_all
  show ?case
  proof (cases "10 \<le> n")
    case True
    with front have m10: "10 \<le> m" using decimal_nonempty[of "n div 10"] by (auto split: if_splits)
    with front True have "decimal (n div 10) = decimal (m div 10)" by simp
    then have "n div 10 = m div 10" using "1.IH"[OF True] by blast
    with md show ?thesis by (metis div_mult_mod_eq)
  next
    case False
    with front have "\<not> 10 \<le> m" using decimal_nonempty[of "m div 10"] by (auto split: if_splits)
    with False md show ?thesis by simp
  qed
qed

lemma number_toString_inj:
  "0 \<le> a \<Longrightarrow> 0 \<le> b \<Longrightarrow> number_toString a = number_toString b \<Longrightarrow> a = b"
  using decimal_inj[of "nat a" "nat b"] by (simp add: number_toString_def)



section \<open>Properties of the classifier\<close>

text \<open>
  C5 (as amended): the classifier is a function of the thrown value alone. A failure
  whose message signals storage, connection or timeout is classified infrastructure and
  retryable. A failure whose message contains "not found" and none of the storage,
  connection or timeout signals is classified client and non-retryable. A failure that no
  rule recognises is classified unknown and retryable.
\<close>

theorem categorizeError_table:
  "(signals_infrastructure (message_of e1) \<longrightarrow>
      category (categorizeError e1) = ''infrastructure'' \<and> isRetryable (categorizeError e1)) \<and>
   (str_includes (message_of e2) ''not found'' \<and> \<not> signals_infrastructure (message_of e2) \<longrightarrow>
      category (categorizeError e2) = ''client'' \<and> \<not> isRetryable (categorizeError e2)) \<and>
   (unrecognized (message_of e3) \<longrightarrow>
      errType (categorizeError e3) = ''UnknownError'' \<and>
      category (categorizeError e3) = ''unknown'' \<and> isRetryable (categorizeError e3))"
  by (simp add: categorizeError_def message_of_def signals_infrastructure_def
      unrecognized_def Let_def)

theorem categorizeError_table_witness:
  "signals_infrastructure (message_of (Error ''Query timeout after 30s'')) \<and>
   category (categorizeError (Error ''Query timeout after 30s'')) = ''infrastructure'' \<and>
   isRetryable (categorizeError (Error ''Query timeout after 30s'')) \<and>
   str_includes (message_of (Error ''Task not found'')) ''not found'' \<and>
   \<not> signals_infrastructure (message_of (Error ''Task not found'')) \<and>
   category (categorizeError (Error ''Task not found'')) = ''client'' \<and>
   \<not> isRetryable (categorizeError (Error ''Task not found'')) \<and>
   unrecognized (message_of NonError) \<and>
   errType (categorizeError NonError) = ''UnknownError'' \<and>
   category (categorizeError NonError) = ''unknown'' \<and>
   isRetryable (categorizeError NonError)"
proof -
  have h1: "signals_infrastructure (message_of (Error ''Query timeout after 30s''))"
    by (simp add: signals_infrastructure_def message_of_def)
  have h2: "str_includes (message_of (Error ''Task not found'')) ''not found'' \<and>
      \<not> signals_infrastructure (message_of (Error ''Task not found''))"
    by (simp add: signals_infrastructure_def message_of_def)
  have h3: "unrecognized (message_of NonError)"
    by (simp add: unrecognized_def signals_infrastructure_def message_of_def)
  from h1 h2 h3
    categorizeError_table [of "Error ''Query timeout after 30s''" "Error ''Task not found''" NonError]
  show ?thesis by blast
qed

text \<open>
  The claim as stated fails where a message carries "not found" together with a signal
  of the first rule: the first rule wins.
\<close>

theorem not_found_counterexample:
  "str_includes (message_of (Error ''database record not found'')) ''not found'' \<and>
   \<not> (category (categorizeError (Error ''database record not found'')) = ''client'' \<and>
      \<not> isRetryable (categorizeError (Error ''database record not found'')))"
  by (simp add: categorizeError_def message_of_def)

section \<open>Properties of the worker\<close>

lemma attempt_attemptsMade: "attempt u (job\<lparr>attemptsMade := n\<rparr>) = attempt u job"
  by (cases "jobData job") (simp_all add: attempt_def validateJobData_def Let_def)

lemma maxAttempts_attemptsMade: "maxAttempts (job\<lparr>attemptsMade := n\<rparr>) = maxAttempts job"
  by (simp add: maxAttempts_def)

text \<open>Whatever the classification, \<open>process\<close> throws the error the attempt threw.\<close>

lemma process_rethrows:
  "attempt u job = Throws e \<Longrightarrow> fst (process u el job w) = Throws e"
  by (simp add: process_def Let_def)

lemma process_counts_failure:
  "attempt u job = Throws e \<Longrightarrow> failed (snd (process u el job w)) = failed w + 1"
  by (simp add: process_def Let_def)

text \<open>
  A job whose attempt fails is executed until its attempts are used up, whether or not
  the failure is classified retryable: the runtime sees the same throw in either case.
\<close>

lemma deliver_failing:
  "attempt u job = Throws e \<Longrightarrow>
   fst (deliver u el job w) = Failed \<and>
   fst (snd (deliver u el job w)) =
     (if attemptsMade job + 1 < maxAttempts job then maxAttempts job - attemptsMade job else 1)"
proof (induction u el job w rule: deliver.induct)
  case (1 u el job w)
  obtain w' where p: "process u el job w = (Throws e, w')"
    using process_rethrows[OF "1.prems", of el w] by (cases "process u el job w") auto
  show ?case
  proof (cases "attemptsMade job + 1 < maxAttempts job")
    case True
    let ?job' = "job\<lparr>attemptsMade := attemptsMade job + 1\<rparr>"
    have a: "attempt u ?job' = Throws e" using "1.prems" by (simp add: attempt_attemptsMade)
    note ih = "1.IH"[OF p[symmetric] refl True a]
    show ?thesis
      using True p ih
      by (subst (1 2) deliver.simps)
         (auto simp: maxAttempts_attemptsMade split: prod.splits if_splits)
  next
    case False
    then show ?thesis using p by (subst (1 2) deliver.simps) simp
  qed
qed

lemma malformed_status_job_attempt:
  "attempt u malformed_status_job =
     Throws (Error ''Job validation failed: taskId is required for status update, status is required for status update'')"
  by (simp add: attempt_def validateJobData_def malformed_status_job_def field_def)

text \<open>
  C1 (the code departs from the claim): the job \<open>malformed_status_job\<close> fails validation,
  the failure is classified \<open>ValidationError\<close>, non-retryable, and the job is nevertheless
  executed three times before it is failed, because \<open>process\<close> throws the same error in its
  non-retryable branch as in its retry branch.
\<close>

theorem non_retryable_job_runs_every_attempt:
  "attempt u malformed_status_job =
     Throws (Error ''Job validation failed: taskId is required for status update, status is required for status update'') \<and>
   errType (categorizeError (Error ''Job validation failed: taskId is required for status update, status is required for status update'')) = ''ValidationError'' \<and>
   \<not> isRetryable (categorizeError (Error ''Job validation failed: taskId is required for status update, status is required for status update'')) \<and>
   fst (deliver u el malformed_status_job w) = Failed \<and>
   fst (snd (deliver u el malformed_status_job w)) = 3"
proof -
  have "fst (deliver u el malformed_status_job w) = Failed \<and>
      fst (snd (deliver u el malformed_status_job w)) = 3"
    using deliver_failing[OF malformed_status_job_attempt, where el = el and w = w]
    by (simp add: malformed_status_job_def maxAttempts_def)
  then show ?thesis
    by (simp add: malformed_status_job_attempt categorizeError_def)
qed

lemma unknown_message_unrecognized:
  "unrecognized (''Unknown job type: '' @ n) = unrecognized n"
  by (simp add: unrecognized_def signals_infrastructure_def)

text \<open>
  C2 (as amended): a job whose type is none of the three implemented kinds always fails,
  and \<open>process\<close> counts the failure and throws it on. Without data the failure is the
  validation failure "Job data is missing", classified non-retryable. With data the
  failure is "Unknown job type: <name>", which the classifier judges by its message: when
  the name contains none of the classifier's keywords it is classified
  \<open>UnknownError\<close>, category unknown, retryable.
\<close>

theorem unknown_job_type_fails:
  assumes "jobName job \<notin> {''task-status-update'', ''task-created'', ''overdue-tasks-notification''}"
    and "jobName job' \<notin> {''task-status-update'', ''task-created'', ''overdue-tasks-notification''}"
    and "jobData job = None"
    and "jobData job' = Some d"
  shows "fst (process u el job w) = Throws (Error ''Job validation failed: Job data is missing'') \<and>
         failed (snd (process u el job w)) = failed w + 1 \<and>
         \<not> isRetryable (categorizeError (Error ''Job validation failed: Job data is missing'')) \<and>
         fst (process u el job' w) = Throws (Error (''Unknown job type: '' @ jobName job')) \<and>
         failed (snd (process u el job' w)) = failed w + 1 \<and>
         (unrecognized (jobName job') \<longrightarrow>
            errType (categorizeError (Error (''Unknown job type: '' @ jobName job'))) = ''UnknownError'' \<and>
            category (categorizeError (Error (''Unknown job type: '' @ jobName job'))) = ''unknown'' \<and>
            isRetryable (categorizeError (Error (''Unknown job type: '' @ jobName job'))))"
proof -
  have a: "attempt u job = Throws (Error ''Job validation failed: Job data is missing'')"
    using assms(3) by (simp add: attempt_def validateJobData_def)
  have b: "attempt u job' = Throws (Error (''Unknown job type: '' @ jobName job'))"
    using assms(2,4) by (simp add: attempt_def validateJobData_def)
  have c: "\<not> isRetryable (categorizeError (Error ''Job validation failed: Job data is missing''))"
    by (simp add: categorizeError_def)
  have d: "unrecognized (jobName job') \<longrightarrow>
      errType (categorizeError (Error (''Unknown job type: '' @ jobName job'))) = ''UnknownError'' \<and>
      category (categorizeError (Error (''Unknown job type: '' @ jobName job'))) = ''unknown'' \<and>
      isRetryable (categorizeError (Error (''Unknown job type: '' @ jobName job')))"
  proof
    assume "unrecognized (jobName job')"
    then have "unrecognized (''Unknown job type: '' @ jobName job')"
      by (simp only: unknown_message_unrecognized)
    then show "errType (categorizeError (Error (''Unknown job type: '' @ jobName job'))) = ''UnknownError'' \<and>
      category (categorizeError (Error (''Unknown job type: '' @ jobName job'))) = ''unknown'' \<and>
      isRetryable (categorizeError (Error (''Unknown job type: '' @ jobName job')))"
      unfolding unrecognized_def signals_infrastructure_def categorizeError_def Let_def
      by (simp del: str_includes.simps)
  qed
  show ?thesis
    using process_rethrows[OF a, of el w] process_counts_failure[OF a, of el w]
      process_rethrows[OF b, of el w] process_counts_failure[OF b, of el w] c d
    by blast
qed

theorem unknown_job_type_fails_witness:
  "jobName (unknown_kind_job\<lparr>jobData := None\<rparr>) \<notin>
     {''task-status-update'', ''task-created'', ''overdue-tasks-notification''} \<and>
   jobName unknown_kind_job \<notin>
     {''task-status-update'', ''task-created'', ''overdue-tasks-notification''} \<and>
   jobData (unknown_kind_job\<lparr>jobData := None\<rparr>) = None \<and>
   jobData unknown_kind_job = Some [] \<and>
   unrecognized (jobName unknown_kind_job) \<and>
   fst (process no_row 5 (unknown_kind_job\<lparr>jobData := None\<rparr>) fresh_worker) =
     Throws (Error ''Job validation failed: Job data is missing'') \<and>
   fst (process no_row 5 unknown_kind_job fresh_worker) = Throws (Error ''Unknown job type: send-email'') \<and>
   failed (snd (process no_row 5 unknown_kind_job fresh_worker)) = 1 \<and>
   errType (categorizeError (Error ''Unknown job type: send-email'')) = ''UnknownError'' \<and>
   isRetryable (categorizeError (Error ''Unknown job type: send-email''))"
proof -
  have h1: "jobName (unknown_kind_job\<lparr>jobData := None\<rparr>) \<notin>
     {''task-status-update'', ''task-created'', ''overdue-tasks-notification''}"
    by (simp add: unknown_kind_job_def)
  have h2: "jobName unknown_kind_job \<notin>
     {''task-status-update'', ''task-created'', ''overdue-tasks-notification''}"
    by (simp add: unknown_kind_job_def)
  have h3: "jobData (unknown_kind_job\<lparr>jobData := None\<rparr>) = None" by simp
  have h4: "jobData unknown_kind_job = Some []" by (simp add: unknown_kind_job_def)
  have h5: "unrecognized (jobName unknown_kind_job)"
    by (simp add: unknown_kind_job_def unrecognized_def signals_infrastructure_def)
  have n: "jobName unknown_kind_job = ''send-email''" by (simp add: unknown_kind_job_def)
  have f: "failed fresh_worker = 0" by (simp add: fresh_worker_def)
  from unknown_job_type_fails[OF h1 h2 h3 h4, of no_row 5 fresh_worker] h1 h2 h3 h4 h5
  show ?thesis by (simp add: n f)
qed

text \<open>
  The claim as stated fails on \<open>unknown_kind_job\<close>: its failure is classified retryable,
  and the job is executed three times.
\<close>

theorem unknown_job_type_counterexample:
  "jobName unknown_kind_job \<notin>
     {''task-status-update'', ''task-created'', ''overdue-tasks-notification''} \<and>
   attempt no_row unknown_kind_job = Throws (Error ''Unknown job type: send-email'') \<and>
   isRetryable (categorizeError (Error ''Unknown job type: send-email'')) \<and>
   fst (snd (deliver no_row 5 unknown_kind_job fresh_worker)) = 3"
proof -
  have a: "attempt no_row unknown_kind_job = Throws (Error ''Unknown job type: send-email'')"
    by (simp add: attempt_def validateJobData_def unknown_kind_job_def)
  have "fst (snd (deliver no_row 5 unknown_kind_job fresh_worker)) = 3"
    using deliver_failing[OF a, where el = 5 and w = fresh_worker]
    by (simp add: unknown_kind_job_def maxAttempts_def)
  then show ?thesis
    using a by (simp add: unknown_kind_job_def categorizeError_def)
qed

section \<open>Properties of the overdue scanner\<close>

lemma calculateOverdueDuration_shape:
  "calculateOverdueDuration now due =
     (let days = (now - due) div 86400000; hours = (now - due) div 3600000 in
      if days > 0 then number_toString days @ '' day'' @ (if days > 1 then ''s'' else [])
      else number_toString hours @ '' hour'' @ (if hours > 1 then ''s'' else []))"
proof -
  have "(now - due) div (1000 * 60 * 60) div 24 = (now - due) div 86400000"
    by (simp add: zdiv_zmult2_eq[symmetric])
  then show ?thesis by (simp add: calculateOverdueDuration_def Let_def)
qed

lemma calculateOverdueDuration_examples:
  "calculateOverdueDuration (26 * 3600000) 0 = ''1 day''"
  "calculateOverdueDuration (3 * 3600000) 0 = ''3 hours''"
  by (simp_all add: calculateOverdueDuration_def number_toString_def digit_char_def)

text \<open>
  From one hour on, the string is the one the claim describes: days when at least one
  full day has passed, hours otherwise, in the singular exactly for the count 1.
\<close>

lemma calculateOverdueDuration_from_one_hour:
  assumes "3600000 \<le> now - due"
  shows "calculateOverdueDuration now due =
     (let days = (now - due) div 86400000; hours = (now - due) div 3600000 in
      if days > 0 then number_toString days @ '' day'' @ (if days = 1 then [] else ''s'')
      else number_toString hours @ '' hour'' @ (if hours = 1 then [] else ''s''))"
proof -
  have "1 \<le> (now - due) div 3600000"
    using assms by (simp add: pos_imp_zdiv_pos_iff)
  then show ?thesis
    unfolding calculateOverdueDuration_shape Let_def by auto
qed

text \<open>
  C6 (the code departs from the claim): a task due half an hour ago has hour count 0, and
  the string is rendered in the singular form, "0 hour"; the plural suffix is added only
  for counts above 1.
\<close>

theorem overdue_zero_hours_is_singular:
  "calculateOverdueDuration 1800000 0 = ''0 hour''"
  by (simp add: calculateOverdueDuration_def number_toString_def digit_char_def)

text \<open>
  C3 (the code departs from the claim): the job id ends in the clock reading in
  milliseconds. The same overdue task, enqueued by a batch at time 1000 and again by a
  batch one millisecond later, is held twice by the queue, under two job ids.
\<close>

theorem same_task_enqueued_twice:
  "map qJobId (jobs (snd (processBatch 1001 [late_task] (snd (processBatch 1000 [late_task] empty_queue))))) =
     [''overdue-t1-1000'', ''overdue-t1-1001''] \<and>
   map qTaskId (jobs (snd (processBatch 1001 [late_task] (snd (processBatch 1000 [late_task] empty_queue))))) =
     [''t1'', ''t1'']"
  by (simp add: processBatch_def queue_add_def late_task_def empty_queue_def
      number_toString_def digit_char_def)

text \<open>Only two enqueues that read the same millisecond share a job id.\<close>

lemma same_millisecond_is_deduplicated:
  "map qJobId (jobs (snd (processBatch 1000 [late_task] (snd (processBatch 1000 [late_task] empty_queue))))) =
     [''overdue-t1-1000'']"
  by (simp add: processBatch_def queue_add_def late_task_def empty_queue_def
      number_toString_def digit_char_def)

text \<open>
  Whatever the task and the two clock readings, as long as they differ: the second
  enqueue adds a second job for the same task.
\<close>

lemma rediscovered_task_is_enqueued_again:
  assumes "dueDate task = Some due" and "0 \<le> t1" and "0 \<le> t2" and "t1 \<noteq> t2"
  shows "map qTaskId (jobs (snd (processBatch t2 [task] (snd (processBatch t1 [task] empty_queue))))) =
           [task_id task, task_id task]"
proof -
  have "number_toString t1 \<noteq> number_toString t2"
    using number_toString_inj[OF assms(2,3)] assms(4) by blast
  then show ?thesis
    using assms(1) by (simp add: processBatch_def queue_add_def empty_queue_def)
qed

lemma repo_find_length:
  "repo_find env now tk skip = Returns ts \<Longrightarrow>
   ts = take tk (drop skip (matching env now)) \<and> length ts \<le> tk \<and> \<not> findFails env skip"
  by (auto simp: repo_find_def split: if_splits)

lemma scan_loop_fetches:
  "scan_loop pb env now s q c = (res, s', q', c') \<Longrightarrow>
   fetches s' \<le> fetches s + (length (matching env now) - offset s) div BATCH_SIZE + 1"
proof (induction pb env now s q c arbitrary: res s' q' c' rule: scan_loop.induct)
  case (1 pb env now s q c)
  let ?M = "matching env now"
  show ?case
  proof (cases "repo_find env now BATCH_SIZE (offset s)")
    case (Throws e)
    with "1.prems" show ?thesis by (subst (asm) scan_loop.simps) auto
  next
    case (Returns ts)
    note f = repo_find_length[OF Returns]
    show ?thesis
    proof (cases "length ts = 0")
      case True
      with "1.prems" Returns show ?thesis by (subst (asm) scan_loop.simps) (auto simp: Let_def)
    next
      case False
      show ?thesis
      proof (cases "length ts < BATCH_SIZE")
        case True
        with "1.prems" Returns False show ?thesis
          by (subst (asm) scan_loop.simps) (auto simp: Let_def)
      next
        case full: False
        define r where "r = pb (batchClock env (offset s)) ts q c"
        define s1 where "s1 = s\<lparr>fetches := fetches s + 1, pages := pages s @ [(offset s, length ts)]\<rparr>"
        define s2 where "s2 = s1\<lparr>totalProcessed := totalProcessed s1 + length ts,
                          totalQueued := totalQueued s1 + fst r,
                          offset := offset s1 + BATCH_SIZE\<rparr>"
        have rec: "scan_loop pb env now s2 (fst (snd r)) (snd (snd r)) = (res, s', q', c')"
          using "1.prems" Returns False full
          by (subst (asm) scan_loop.simps) (simp add: Let_def r_def s1_def s2_def)
        have ih: "fetches s' \<le> fetches s2 + (length ?M - offset s2) div BATCH_SIZE + 1"
          using "1.IH"[OF Returns s1_def False r_def s2_def full rec] .
        have len: "length ts = BATCH_SIZE" using f full by simp
        then have ge: "BATCH_SIZE \<le> length ?M - offset s" using f by simp
        have pos: "0 < BATCH_SIZE" by (simp add: BATCH_SIZE_def)
        have "(length ?M - offset s) div BATCH_SIZE = (length ?M - (offset s + BATCH_SIZE)) div BATCH_SIZE + 1"
          using ge pos by (simp add: le_div_geq)
        then show ?thesis using ih by (simp add: s2_def s1_def)
      qed
    qed
  qed
qed


lemma scan_loop_pages:
  "scan_loop pb env now s q c = (res, s', q', c') \<Longrightarrow>
   \<exists>ps. pages s' = pages s @ ps \<and>
     (\<forall>i<length ps. ps ! i = (offset s + i * BATCH_SIZE,
         length (take BATCH_SIZE (drop (offset s + i * BATCH_SIZE) (matching env now))))) \<and>
     (res = Returns () \<longrightarrow> ps \<noteq> [] \<and> snd (last ps) < BATCH_SIZE \<and>
         (\<forall>i<length ps - 1. snd (ps ! i) = BATCH_SIZE) \<and> fetches s' = fetches s + length ps) \<and>
     (res \<noteq> Returns () \<longrightarrow> findFails env (offset s + length ps * BATCH_SIZE) \<and>
         fetches s' = fetches s + length ps + 1)"
proof (induction pb env now s q c arbitrary: res s' q' c' rule: scan_loop.induct)
  case (1 pb env now s q c)
  let ?M = "matching env now"
  show ?case
  proof (cases "repo_find env now BATCH_SIZE (offset s)")
    case (Throws e)
    then have ff: "findFails env (offset s)" by (auto simp: repo_find_def split: if_splits)
    from "1.prems" Throws have "res = Throws e" "s' = s\<lparr>fetches := fetches s + 1\<rparr>"
      by (subst (asm) scan_loop.simps, auto)+
    with ff show ?thesis by (intro exI[of _ "[]"]) simp
  next
    case (Returns ts)
    note f = repo_find_length[OF Returns]
    define s1 where "s1 = s\<lparr>fetches := fetches s + 1, pages := pages s @ [(offset s, length ts)]\<rparr>"
    show ?thesis
    proof (cases "length ts = 0")
      case True
      with "1.prems" Returns have "res = Returns ()" "s' = s1"
        by (subst (asm) scan_loop.simps, auto simp: Let_def s1_def)+
      with True f show ?thesis
        by (intro exI[of _ "[(offset s, length ts)]"]) (simp add: s1_def BATCH_SIZE_def)
    next
      case False
      define r where "r = pb (batchClock env (offset s)) ts q c"
      define s2 where "s2 = s1\<lparr>totalProcessed := totalProcessed s1 + length ts,
                        totalQueued := totalQueued s1 + fst r,
                        offset := offset s1 + BATCH_SIZE\<rparr>"
      show ?thesis
      proof (cases "length ts < BATCH_SIZE")
        case True
        with "1.prems" Returns False have "res = Returns ()" "s' = s2"
          by (subst (asm) scan_loop.simps, auto simp: Let_def s1_def s2_def r_def)+
        with True f show ?thesis
          by (intro exI[of _ "[(offset s, length ts)]"]) (simp add: s1_def s2_def)
      next
        case full: False
        have rec: "scan_loop pb env now s2 (fst (snd r)) (snd (snd r)) = (res, s', q', c')"
          using "1.prems" Returns False full
          by (subst (asm) scan_loop.simps) (simp add: Let_def r_def s1_def s2_def)
        from "1.IH"[OF Returns s1_def False r_def s2_def full rec]
        obtain ps where ps: "pages s' = pages s2 @ ps"
          "\<forall>i<length ps. ps ! i = (offset s2 + i * BATCH_SIZE,
             length (take BATCH_SIZE (drop (offset s2 + i * BATCH_SIZE) ?M)))"
          "res = Returns () \<longrightarrow> ps \<noteq> [] \<and> snd (last ps) < BATCH_SIZE \<and>
             (\<forall>i<length ps - 1. snd (ps ! i) = BATCH_SIZE) \<and> fetches s' = fetches s2 + length ps"
          "res \<noteq> Returns () \<longrightarrow> findFails env (offset s2 + length ps * BATCH_SIZE) \<and>
             fetches s' = fetches s2 + length ps + 1"
          by blast
        have len: "length ts = BATCH_SIZE" using f full by simp
        have o2: "offset s2 = offset s + BATCH_SIZE" "fetches s2 = fetches s + 1"
          "pages s2 = pages s @ [(offset s, length ts)]"
          by (simp_all add: s2_def s1_def)
        let ?ps = "(offset s, length ts) # ps"
        have a: "pages s' = pages s @ ?ps" using ps(1) o2 by simp
        have b: "\<forall>i<length ?ps. ?ps ! i = (offset s + i * BATCH_SIZE,
             length (take BATCH_SIZE (drop (offset s + i * BATCH_SIZE) ?M)))"
        proof (intro allI impI)
          fix i assume i: "i < length ?ps"
          show "?ps ! i = (offset s + i * BATCH_SIZE,
             length (take BATCH_SIZE (drop (offset s + i * BATCH_SIZE) ?M)))"
          proof (cases i)
            case 0
            then show ?thesis using f by simp
          next
            case (Suc j)
            with i have "j < length ps" by simp
            with ps(2) o2 Suc show ?thesis by (simp add: ac_simps)
          qed
        qed
        have c: "res = Returns () \<longrightarrow> ?ps \<noteq> [] \<and> snd (last ?ps) < BATCH_SIZE \<and>
             (\<forall>i<length ?ps - 1. snd (?ps ! i) = BATCH_SIZE) \<and> fetches s' = fetches s + length ?ps"
        proof
          assume r: "res = Returns ()"
          with ps(3) have p3: "ps \<noteq> []" "snd (last ps) < BATCH_SIZE"
            "\<forall>i<length ps - 1. snd (ps ! i) = BATCH_SIZE" "fetches s' = fetches s2 + length ps"
            by simp_all
          have "\<forall>i<length ?ps - 1. snd (?ps ! i) = BATCH_SIZE"
          proof (intro allI impI)
            fix i assume i: "i < length ?ps - 1"
            show "snd (?ps ! i) = BATCH_SIZE"
            proof (cases i)
              case 0 then show ?thesis using len by simp
            next
              case (Suc j)
              with i have "j < length ps - 1" by simp
              with p3(3) Suc show ?thesis by simp
            qed
          qed
          with p3 o2 show "?ps \<noteq> [] \<and> snd (last ?ps) < BATCH_SIZE \<and>
             (\<forall>i<length ?ps - 1. snd (?ps ! i) = BATCH_SIZE) \<and> fetches s' = fetches s + length ?ps"
            by simp
        qed
        have d: "res \<noteq> Returns () \<longrightarrow> findFails env (offset s + length ?ps * BATCH_SIZE) \<and>
             fetches s' = fetches s + length ?ps + 1"
          using ps(4) o2 by (simp add: ac_simps)
        from a b c d show ?thesis by blast
      qed
    qed
  qed
qed

text \<open>
  C7: a scan run terminates, for every store (a finite list of rows), batch function and
  failure pattern of the queries: \<open>scan_loop\<close> is a total function, and the run returns
  a final state. The pages it read lie at the offsets 0, \<open>BATCH_SIZE\<close>,
  2 \<open>\<times>\<close> \<open>BATCH_SIZE\<close>, ... and each holds the (at most \<open>BATCH_SIZE\<close>) matching rows from
  its offset on. A run that no query failure cut short stops on a page shorter than
  \<open>BATCH_SIZE\<close> (an empty page included), every earlier page being full. The number of
  queries is at most \<open>\<lceil>totalMatching / BATCH_SIZE\<rceil> + 1\<close>.
\<close>

theorem scan_terminates_within_bound:
  "\<exists>res s q' c'.
     scan_loop pb env now initial_scan_state q c = (res, s, q', c') \<and>
     checkOverdueTasks pb env now q c = (s, q', c') \<and>
     fetches s \<le> (length (matching env now) + BATCH_SIZE - 1) div BATCH_SIZE + 1 \<and>
     (\<forall>i<length (pages s). pages s ! i =
        (i * BATCH_SIZE, length (take BATCH_SIZE (drop (i * BATCH_SIZE) (matching env now))))) \<and>
     (res = Returns () \<longrightarrow>
        pages s \<noteq> [] \<and> snd (last (pages s)) < BATCH_SIZE \<and>
        (\<forall>i<length (pages s) - 1. snd (pages s ! i) = BATCH_SIZE) \<and>
        fetches s = length (pages s)) \<and>
     (res \<noteq> Returns () \<longrightarrow>
        findFails env (length (pages s) * BATCH_SIZE) \<and> fetches s = length (pages s) + 1)"
proof -
  obtain res s q' c' where run: "scan_loop pb env now initial_scan_state q c = (res, s, q', c')"
    by (metis prod_cases4)
  have chk: "checkOverdueTasks pb env now q c = (s, q', c')"
    by (simp add: checkOverdueTasks_def run)
  have "fetches s \<le> length (matching env now) div BATCH_SIZE + 1"
    using scan_loop_fetches[OF run] by (simp add: initial_scan_state_def)
  moreover have "length (matching env now) div BATCH_SIZE \<le>
      (length (matching env now) + BATCH_SIZE - 1) div BATCH_SIZE"
    by (intro div_le_mono) (simp add: BATCH_SIZE_def)
  ultimately have bound: "fetches s \<le> (length (matching env now) + BATCH_SIZE - 1) div BATCH_SIZE + 1"
    by linarith
  from scan_loop_pages[OF run]
  have rest: "(\<forall>i<length (pages s). pages s ! i =
        (i * BATCH_SIZE, length (take BATCH_SIZE (drop (i * BATCH_SIZE) (matching env now))))) \<and>
     (res = Returns () \<longrightarrow>
        pages s \<noteq> [] \<and> snd (last (pages s)) < BATCH_SIZE \<and>
        (\<forall>i<length (pages s) - 1. snd (pages s ! i) = BATCH_SIZE) \<and>
        fetches s = length (pages s)) \<and>
     (res \<noteq> Returns () \<longrightarrow>
        findFails env (length (pages s) * BATCH_SIZE) \<and> fetches s = length (pages s) + 1)"
    by (auto simp: initial_scan_state_def)
  from run chk bound rest show ?thesis by blast
qed

lemma overdue_store_matching:
  "int n \<le> now \<Longrightarrow> length (matching (overdue_store n) now) = n"
  by (simp add: matching_def overdue_store_def is_overdue_def filter_map comp_def)

lemma matching_has_due: "t \<in> set (matching env now) \<Longrightarrow> dueDate t \<noteq> None"
  by (auto simp: matching_def is_overdue_def split: option.splits)

lemma queue_add_no_fault:
  "True \<notin> set (addFaults q) \<Longrightarrow>
   fst (queue_add j q) = Returns () \<and> True \<notin> set (addFaults (snd (queue_add j q)))"
  by (cases "addFaults q") (auto simp: queue_add_def Let_def)

lemma enqueue_each_all:
  "True \<notin> set (addFaults q) \<Longrightarrow> \<forall>x\<in>set tasks. dueDate x \<noteq> None \<Longrightarrow>
   fst (enqueue_each t tasks n fl q) = n + length tasks \<and>
   True \<notin> set (addFaults (snd (snd (enqueue_each t tasks n fl q))))"
proof (induction tasks arbitrary: n fl q)
  case Nil
  then show ?case by simp
next
  case (Cons x xs)
  from Cons.prems obtain due where due: "dueDate x = Some due" by auto
  define after where "after = (\<lambda>j. snd (queue_add j q))"
  have add: "queue_add j q = (Returns (), after j)" for j
    using queue_add_no_fault[OF Cons.prems(1), of j] by (cases "queue_add j q") (simp add: after_def)
  have nf: "True \<notin> set (addFaults (after j))" for j
    using queue_add_no_fault[OF Cons.prems(1), of j] by (simp add: after_def)
  have rest: "\<forall>x\<in>set xs. dueDate x \<noteq> None" using Cons.prems by simp
  show ?case
    using Cons.IH[OF nf rest, where n = "n + 1" and fl = fl] by (simp add: due add)
qed

lemma processBatch_all:
  "True \<notin> set (addFaults q) \<Longrightarrow> \<forall>x\<in>set tasks. dueDate x \<noteq> None \<Longrightarrow>
   fst (processBatch t tasks q) = length tasks \<and>
   True \<notin> set (addFaults (snd (processBatch t tasks q)))"
  using enqueue_each_all[of q tasks t 0 "[]"]
  by (cases "enqueue_each t tasks 0 [] q") (simp add: processBatch_def)

lemma countingProcessBatch_all:
  assumes "True \<notin> set (addFaults q)" "\<forall>x\<in>set tasks. dueDate x \<noteq> None"
  shows "fst (countingProcessBatch t tasks q c) = length tasks"
    and "True \<notin> set (addFaults (fst (snd (countingProcessBatch t tasks q c))))"
    and "snd (snd (countingProcessBatch t tasks q c)) = (fst c + length tasks, snd c + length tasks)"
  using processBatch_all[OF assms, of t]
  by (cases c; cases "processBatch t tasks q"; simp add: countingProcessBatch_def)+

lemma scan_loop_counting:
  "scan_loop pb env now s q c = (res, s', q', c') \<Longrightarrow> pb = countingProcessBatch \<Longrightarrow>
   \<forall>k. \<not> findFails env k \<Longrightarrow> True \<notin> set (addFaults q) \<Longrightarrow>
   res = Returns () \<and>
   c' = (fst c + (length (matching env now) - offset s), snd c + (length (matching env now) - offset s)) \<and>
   totalProcessed s' = totalProcessed s + (length (matching env now) - offset s) \<and>
   totalQueued s' = totalQueued s + (length (matching env now) - offset s) \<and>
   True \<notin> set (addFaults q')"
proof (induction pb env now s q c arbitrary: res s' q' c' rule: scan_loop.induct)
  case (1 pb env now s q c)
  note pb = "1.prems"(2)
  let ?M = "matching env now"
  define ts where "ts = take BATCH_SIZE (drop (offset s) ?M)"
  have find: "repo_find env now BATCH_SIZE (offset s) = Returns ts"
    using "1.prems"(3) by (simp add: repo_find_def ts_def)
  have due: "\<forall>x\<in>set ts. dueDate x \<noteq> None"
    using matching_has_due[of _ env now] by (auto simp: ts_def dest: in_set_takeD in_set_dropD)
  define s1 where "s1 = s\<lparr>fetches := fetches s + 1, pages := pages s @ [(offset s, length ts)]\<rparr>"
  show ?case
  proof (cases "length ts = 0")
    case True
    with "1.prems"(1) find have "res = Returns ()" "s' = s1" "q' = q" "c' = c"
      by (subst (asm) scan_loop.simps, auto simp: Let_def s1_def)+
    moreover have "length ?M - offset s = 0" using True by (simp add: ts_def BATCH_SIZE_def)
    ultimately show ?thesis using "1.prems"(4) by (simp add: s1_def)
  next
    case False
    define r where "r = pb (batchClock env (offset s)) ts q c"
    define s2 where "s2 = s1\<lparr>totalProcessed := totalProcessed s1 + length ts,
                      totalQueued := totalQueued s1 + fst r,
                      offset := offset s1 + BATCH_SIZE\<rparr>"
    note cb = countingProcessBatch_all[OF "1.prems"(4) due, of "batchClock env (offset s)" c, folded pb, folded r_def]
    show ?thesis
    proof (cases "length ts < BATCH_SIZE")
      case True
      with "1.prems"(1) find False have "res = Returns ()" "s' = s2" "q' = fst (snd r)" "c' = snd (snd r)"
        by (subst (asm) scan_loop.simps, auto simp: Let_def s1_def s2_def r_def)+
      moreover have "length ts = length ?M - offset s" using True by (simp add: ts_def)
      ultimately show ?thesis using cb by (simp add: s2_def s1_def)
    next
      case full: False
      have rec: "scan_loop pb env now s2 (fst (snd r)) (snd (snd r)) = (res, s', q', c')"
        using "1.prems"(1) find False full
        by (subst (asm) scan_loop.simps) (simp add: Let_def r_def s1_def s2_def)
      note ih = "1.IH"[OF find s1_def False r_def s2_def full rec pb "1.prems"(3) cb(2)]
      have len: "length ts = BATCH_SIZE" using full by (simp add: ts_def)
      then have ge: "BATCH_SIZE \<le> length ?M - offset s" by (simp add: ts_def)
      then have eq: "BATCH_SIZE + (length ?M - (offset s + BATCH_SIZE)) = length ?M - offset s"
        by simp
      show ?thesis using ih cb len eq by (simp add: s2_def s1_def add.assoc)
    qed
  qed
qed


text \<open>
  Whatever the number of matching rows, the manual trigger reports all of them as
  processed and as queued when no query and no enqueue fails.
\<close>

lemma triggerOverdueCheck_counts_all:
  assumes "\<forall>k. \<not> findFails env k" and "True \<notin> set (addFaults q)"
  shows "fst (triggerOverdueCheck env now q) =
           (length (matching env now), length (matching env now))"
proof -
  obtain res s q' c' where
    run: "scan_loop countingProcessBatch env now initial_scan_state q (0, 0) = (res, s, q', c')"
    by (metis prod_cases4)
  from scan_loop_counting[OF run refl assms]
  have "c' = (length (matching env now), length (matching env now))"
    by (simp add: initial_scan_state_def)
  then show ?thesis
    by (simp add: triggerOverdueCheck_def checkOverdueTasks_def run)
qed









lemma overdue_store_150:
  "length (matching (overdue_store 150) 1000) = 150"
  by (rule overdue_store_matching) simp





theorem scan_terminates_within_bound_witness:
  "\<exists>s q' c'.
     scan_loop plainProcessBatch (overdue_store 150) 1000 initial_scan_state empty_queue () =
       (Returns (), s, q', c') \<and>
     fetches s \<le> 3 \<and> pages s \<noteq> [] \<and> snd (last (pages s)) < 100 \<and> fetches s = length (pages s)"
proof -
  have nf: "\<not> findFails (overdue_store 150) k" for k by (simp add: overdue_store_def)
  have b: "(length (matching (overdue_store 150) 1000) + BATCH_SIZE - 1) div BATCH_SIZE + 1 = 3"
    by (simp add: overdue_store_150 BATCH_SIZE_def)
  from scan_terminates_within_bound[of plainProcessBatch "overdue_store 150" 1000 empty_queue "()"]
  show ?thesis unfolding b using nf by (auto simp: BATCH_SIZE_def)
qed

section \<open>Properties of the cache\<close>

lemma cache_set_returns: "\<exists>r'. cache_set cd key v options r = (Returns (), r')"
  by (auto simp: cache_set_def Let_def split: outcome.splits prod.splits)

lemma cache_get_returns: "\<exists>x r'. cache_get cd key ns r = (Returns x, r')"
  by (auto simp: cache_get_def Let_def split: outcome.splits prod.splits option.splits)

lemma cache_get_result:
  "fst (cache_get cd key ns r) =
     (if (case faults r of [] \<Rightarrow> False | f # fs \<Rightarrow> f) then Returns None
      else case map_of (live r) (keyPrefix r @ buildKey key ns) of
             None \<Rightarrow> Returns None
           | Some (s, e) \<Rightarrow>
               if s = [] then Returns None
               else (case parse cd s of Throws x \<Rightarrow> Returns None | Returns v \<Rightarrow> Returns v))"
  by (simp add: cache_get_def redis_get_def next_fault_def Let_def split: option.splits outcome.splits)


lemma null_entry_miss:
  "null_entry cd (keyPrefix r @ buildKey key ns) r \<Longrightarrow> fst (cache_get cd key ns r) = Returns None"
  by (auto simp: cache_get_def null_entry_def redis_get_def next_fault_def Let_def
      split: option.splits outcome.splits prod.splits if_splits)


lemma distinct_live: "distinct (map fst (entries r)) \<Longrightarrow> distinct (map fst (live r))"
  by (simp add: live_def distinct_map_filter)

lemma live_idem: "live (r\<lparr>entries := live r, faults := fs\<rparr>) = live r"
  by (simp add: live_def)

text \<open>What \<open>cache_get\<close> does to the store: it drops the expired entries and consumes one fault.\<close>

lemma redis_get_state: "snd (redis_get K r) = r\<lparr>entries := live r, faults := tl (faults r)\<rparr>"
  by (simp add: redis_get_def next_fault_def)

lemma cache_get_state:
  "snd (cache_get cd key ns r) = r\<lparr>entries := live r, faults := tl (faults r)\<rparr>"
proof -
  obtain x r1 where g: "redis_get (buildKey key ns) r = (x, r1)" by (cases "redis_get (buildKey key ns) r") auto
  then have "r1 = r\<lparr>entries := live r, faults := tl (faults r)\<rparr>"
    using redis_get_state[of "buildKey key ns" r] by simp
  then show ?thesis
    by (simp add: cache_get_def Let_def g split: outcome.splits option.splits)
qed

text \<open>What \<open>cache_set\<close> does to the store.\<close>

lemma cache_set_state:
  "snd (cache_set cd key v options r) =
     (case stringify cd v of
        Throws e \<Rightarrow> r
      | Returns s \<Rightarrow>
          if (case faults r of [] \<Rightarrow> False | f # fs \<Rightarrow> f) \<or> set_seconds options \<le> 0
          then r\<lparr>entries := live r, faults := tl (faults r)\<rparr>
          else r\<lparr>entries := AList.update (keyPrefix r @ buildKey key (namespace options))
                               (s, clock r + set_seconds options) (live r),
                 faults := tl (faults r)\<rparr>)"
  by (auto simp: cache_set_def redis_setex_def next_fault_def Let_def set_seconds_def
      split: option.splits outcome.splits prod.splits if_splits)

lemma distinct_cache_get:
  "distinct (map fst (entries r)) \<Longrightarrow> distinct (map fst (entries (snd (cache_get cd key ns r))))"
  by (simp add: cache_get_state distinct_live)

lemma distinct_cache_set:
  "distinct (map fst (entries r)) \<Longrightarrow> distinct (map fst (entries (snd (cache_set cd key v options r))))"
  by (auto simp: cache_set_state distinct_live distinct_update split: outcome.splits)

lemma map_of_filter_expiry:
  "distinct (map fst es) \<Longrightarrow>
   map_of (filter (\<lambda>(k, v, e). c < e) es) K =
     (case map_of es K of None \<Rightarrow> None | Some (s, e) \<Rightarrow> if c < (e::int) then Some (s, e) else None)"
proof (induction es)
  case Nil
  then show ?case by simp
next
  case (Cons x xs)
  obtain k s e where x: "x = (k, s, e)" by (cases x) auto
  have nk: "K = k \<Longrightarrow> map_of xs K = None"
    using Cons.prems x by (simp add: map_of_eq_None_iff)
  from Cons show ?case using nk by (auto simp: x split: option.splits)
qed

lemma map_of_live:
  "distinct (map fst (entries r)) \<Longrightarrow>
   map_of (live r) K = (case map_of (entries r) K of None \<Rightarrow> None
                        | Some (s, e) \<Rightarrow> if clock r < e then Some (s, e) else None)"
  unfolding live_def by (rule map_of_filter_expiry)


lemma null_entry_cache_get:
  "null_entry cd K r \<Longrightarrow> null_entry cd K (snd (cache_get cd key ns r))"
  by (simp add: cache_get_state null_entry_def live_idem)

lemma null_entry_cache_set:
  assumes "null_entry cd (keyPrefix r @ buildKey key (namespace options)) r"
    and "stringify cd v = Returns s" and "parse cd s = Returns None"
  shows "null_entry cd (keyPrefix r @ buildKey key (namespace options)) (snd (cache_set cd key v options r))"
proof -
  let ?K = "keyPrefix r @ buildKey key (namespace options)"
  let ?e = "clock r + set_seconds options"
  show ?thesis
  proof (cases "(case faults r of [] \<Rightarrow> False | f # fs \<Rightarrow> f) \<or> set_seconds options \<le> 0")
    case True
    then show ?thesis using assms(1,2) by (simp add: cache_set_state null_entry_def live_idem)
  next
    case False
    then have pos: "clock r < ?e" by simp
    have "map_of (AList.update ?K (s, ?e) (live r)) ?K = Some (s, ?e)"
      by (simp add: update_conv')
    then have "map_of (filter (\<lambda>(k, v, e). clock r < e) (AList.update ?K (s, ?e) (live r))) ?K = Some (s, ?e)"
      using pos map_of_filter_in[of "AList.update ?K (s, ?e) (live r)" ?K "(s, ?e)" "\<lambda>k (v, e). clock r < e"]
      by (simp add: case_prod_unfold)
    then show ?thesis using False assms(2,3)
      by (simp add: cache_set_state null_entry_def live_def)
  qed
qed

lemma null_entry_later:
  assumes "distinct (map fst (entries r))" and "null_entry cd K r" and "clock r \<le> t"
  shows "null_entry cd K (r\<lparr>clock := t, faults := fs\<rparr>)"
proof -
  let ?r = "r\<lparr>clock := t, faults := fs\<rparr>"
  have d: "distinct (map fst (entries ?r))" using assms(1) by simp
  show ?thesis
    using assms(2,3)
    by (auto simp: null_entry_def map_of_live[OF d] map_of_live[OF assms(1)] split: option.splits if_splits)
qed

text \<open>
  C9: on a miss \<open>getOrSet\<close> runs the factory once, in the caller's world. When the factory
  returns a value, \<open>getOrSet\<close> passes it to \<open>cache_set\<close> and returns it; when the store
  accepts the write, the entry then holds the serialized value until its expiry. When
  the factory throws, \<open>getOrSet\<close> throws the same error and writes nothing. \<open>cache_get\<close>
  and \<open>cache_set\<close> themselves never throw, whatever the store does: \<open>cache_get\<close>
  answers a miss when the store's command fails, and \<open>cache_set\<close> returns.
\<close>

theorem getOrSet_on_miss:
  assumes "fst (cache_get cd key (namespace options) r) = Returns None"
  shows "(\<forall>v w1. factory w = (Returns v, w1) \<longrightarrow>
            getOrSet cd key factory options r w =
              (Returns v, snd (cache_set cd key v options (snd (cache_get cd key (namespace options) r))), w1)) \<and>
         (\<forall>v w1 s. factory w = (Returns v, w1) \<and> stringify cd v = Returns s \<and>
            \<not> (case tl (faults r) of [] \<Rightarrow> False | f # fs \<Rightarrow> f) \<and> 0 < set_seconds options \<longrightarrow>
            map_of (entries (fst (snd (getOrSet cd key factory options r w))))
                   (keyPrefix r @ buildKey key (namespace options)) =
              Some (s, clock r + set_seconds options)) \<and>
         (\<forall>e w1. factory w = (Throws e, w1) \<longrightarrow>
            getOrSet cd key factory options r w =
              (Throws e, snd (cache_get cd key (namespace options) r), w1)) \<and>
         (\<exists>x r'. cache_get cd' key' ns' st = (Returns x, r')) \<and>
         ((case faults st of [] \<Rightarrow> False | f # fs \<Rightarrow> f) \<longrightarrow>
            fst (cache_get cd' key' ns' st) = Returns None) \<and>
         (\<exists>r'. cache_set cd' key' v' options' st = (Returns (), r'))"
proof -
  obtain r1 where g: "cache_get cd key (namespace options) r = (Returns None, r1)"
    using assms by (cases "cache_get cd key (namespace options) r") auto
  have r1: "r1 = r\<lparr>entries := live r, faults := tl (faults r)\<rparr>"
    using cache_get_state[of cd key "namespace options" r] g by simp
  have a: "\<forall>v w1. factory w = (Returns v, w1) \<longrightarrow>
            getOrSet cd key factory options r w = (Returns v, snd (cache_set cd key v options r1), w1)"
  proof (intro allI impI)
    fix v w1 assume f: "factory w = (Returns v, w1)"
    obtain r2 where s: "cache_set cd key v options r1 = (Returns (), r2)"
      using cache_set_returns by blast
    show "getOrSet cd key factory options r w = (Returns v, snd (cache_set cd key v options r1), w1)"
      by (simp add: getOrSet_def g f s)
  qed
  have b: "\<forall>v w1 s. factory w = (Returns v, w1) \<and> stringify cd v = Returns s \<and>
            \<not> (case tl (faults r) of [] \<Rightarrow> False | f # fs \<Rightarrow> f) \<and> 0 < set_seconds options \<longrightarrow>
            map_of (entries (fst (snd (getOrSet cd key factory options r w))))
                   (keyPrefix r @ buildKey key (namespace options)) =
              Some (s, clock r + set_seconds options)"
  proof (intro allI impI)
    fix v w1 s
    assume h: "factory w = (Returns v, w1) \<and> stringify cd v = Returns s \<and>
            \<not> (case tl (faults r) of [] \<Rightarrow> False | f # fs \<Rightarrow> f) \<and> 0 < set_seconds options"
    then have "getOrSet cd key factory options r w = (Returns v, snd (cache_set cd key v options r1), w1)"
      using a by blast
    then show "map_of (entries (fst (snd (getOrSet cd key factory options r w))))
                   (keyPrefix r @ buildKey key (namespace options)) =
              Some (s, clock r + set_seconds options)"
      using h by (simp add: cache_set_state r1 update_conv')
  qed
  have c: "\<forall>e w1. factory w = (Throws e, w1) \<longrightarrow>
            getOrSet cd key factory options r w = (Throws e, r1, w1)"
    by (simp add: getOrSet_def g)
  have d: "(case faults st of [] \<Rightarrow> False | f # fs \<Rightarrow> f) \<longrightarrow>
            fst (cache_get cd' key' ns' st) = Returns None"
    by (simp add: cache_get_result)
  from a b c d g cache_get_returns[of cd' key' ns' st] cache_set_returns[of cd' key' v' options' st]
  show ?thesis by simp
qed


lemma keyPrefix_cache_get: "keyPrefix (snd (cache_get cd key ns r)) = keyPrefix r"
  by (simp add: cache_get_state)

lemma keyPrefix_cache_set: "keyPrefix (snd (cache_set cd key v options r)) = keyPrefix r"
  by (simp add: cache_set_state split: outcome.splits)

lemma getOrSet_miss_step:
  assumes "fst (cache_get cd key (namespace options) r) = Returns None"
    and "factory w = (Returns v, w1)"
  shows "getOrSet cd key factory options r w =
           (Returns v, snd (cache_set cd key v options (snd (cache_get cd key (namespace options) r))), w1)"
proof -
  obtain r1 where g: "cache_get cd key (namespace options) r = (Returns None, r1)"
    using assms(1) by (cases "cache_get cd key (namespace options) r") auto
  obtain r2 where s: "cache_set cd key v options r1 = (Returns (), r2)"
    using cache_set_returns by blast
  show ?thesis by (simp add: getOrSet_def g assms(2) s)
qed

lemma getOrSet_calls_recompute:
  assumes "\<forall>w. \<exists>v s w'. factory w = (Returns v, w') \<and> stringify cd v = Returns s \<and> parse cd s = Returns None"
  shows "distinct (map fst (entries r)) \<Longrightarrow>
         null_entry cd (keyPrefix r @ buildKey key (namespace options)) r \<Longrightarrow>
         snd (getOrSet_calls cd key factory options calls r w) = ((\<lambda>w. snd (factory w)) ^^ length calls) w \<and>
         null_entry cd (keyPrefix r @ buildKey key (namespace options))
           (fst (getOrSet_calls cd key factory options calls r w))"
proof (induction calls arbitrary: r w)
  case Nil
  then show ?case by simp
next
  case (Cons c calls)
  obtain dt fs where c: "c = (dt, fs)" by (cases c) auto
  let ?K = "keyPrefix r @ buildKey key (namespace options)"
  let ?r0 = "r\<lparr>clock := clock r + int dt, faults := fs\<rparr>"
  have d0: "distinct (map fst (entries ?r0))" using Cons.prems(1) by simp
  have n0: "null_entry cd ?K ?r0" using null_entry_later[OF Cons.prems(1,2), of "clock r + int dt" fs] by simp
  have miss: "fst (cache_get cd key (namespace options) ?r0) = Returns None"
    using null_entry_miss[of cd ?r0 key "namespace options"] n0 by simp
  obtain v s w' where f: "factory w = (Returns v, w')" "stringify cd v = Returns s" "parse cd s = Returns None"
    using assms by blast
  let ?r1 = "snd (cache_get cd key (namespace options) ?r0)"
  let ?r2 = "snd (cache_set cd key v options ?r1)"
  have step: "getOrSet cd key factory options ?r0 w = (Returns v, ?r2, w')"
    using getOrSet_miss_step[where factory = factory and w = w, OF miss f(1)] .
  have d2: "distinct (map fst (entries ?r2))"
    using distinct_cache_set[OF distinct_cache_get[OF d0]] .
  have k1: "keyPrefix ?r1 = keyPrefix r" by (simp add: keyPrefix_cache_get)
  have k2: "keyPrefix ?r2 = keyPrefix r" by (simp add: keyPrefix_cache_set keyPrefix_cache_get)
  have n1: "null_entry cd ?K ?r1" using null_entry_cache_get[OF n0] .
  have n2: "null_entry cd ?K ?r2"
    using null_entry_cache_set[of cd ?r1 key options v s] n1 f(2,3) by (simp add: k1)
  from Cons.IH[OF d2, of w'] n2 k2
  have ih: "snd (getOrSet_calls cd key factory options calls ?r2 w') = ((\<lambda>w. snd (factory w)) ^^ length calls) w' \<and>
      null_entry cd ?K (fst (getOrSet_calls cd key factory options calls ?r2 w'))"
    by simp
  define run where "run = (\<lambda>w. snd (factory w))"
  have w': "w' = run w" using f(1) by (simp add: run_def)
  have "(run ^^ length (c # calls)) w = (run ^^ length calls) w'"
    by (simp add: funpow_swap1 w')
  then have fp: "((\<lambda>w. snd (factory w)) ^^ length (c # calls)) w =
      ((\<lambda>w. snd (factory w)) ^^ length calls) w'"
    by (simp only: run_def)
  have "getOrSet_calls cd key factory options (c # calls) r w =
      getOrSet_calls cd key factory options calls ?r2 w'"
    by (simp add: c step)
  then show ?case using ih fp by (simp only:)
qed

text \<open>
  C10: \<open>cache_get\<close> answers \<^verbatim>\<open>null\<close> alike when the key is absent, when every entry
  under its name has expired, when the store's command fails, and when the stored text
  parses to \<^verbatim>\<open>null\<close>. Hence, for a factory whose values serialize to a text that parses
  to \<^verbatim>\<open>null\<close>, every \<open>getOrSet\<close> call on the key, whenever it is made and whatever the
  store's faults, is a miss: it runs the factory again and passes the value to
  \<open>cache_set\<close> again. After any number of calls the factory has run once per call.
\<close>

theorem null_value_is_never_cached:
  "(keyPrefix ra @ buildKey key ns \<notin> fst ` set (entries ra) \<longrightarrow>
      fst (cache_get cd key ns ra) = Returns None) \<and>
   ((\<forall>s e. (keyPrefix rb @ buildKey key ns, s, e) \<in> set (entries rb) \<longrightarrow> e \<le> clock rb) \<longrightarrow>
      fst (cache_get cd key ns rb) = Returns None) \<and>
   ((case faults rc of [] \<Rightarrow> False | f # fs \<Rightarrow> f) \<longrightarrow>
      fst (cache_get cd key ns rc) = Returns None) \<and>
   ((\<exists>e. map_of (live rd) (keyPrefix rd @ buildKey key ns) = Some (s, e)) \<and> parse cd s = Returns None \<longrightarrow>
      fst (cache_get cd key ns rd) = Returns None) \<and>
   (distinct (map fst (entries r)) \<and>
    null_entry cd (keyPrefix r @ buildKey key (namespace options)) r \<and>
    (\<forall>w. \<exists>v s w'. factory w = (Returns v, w') \<and> stringify cd v = Returns s \<and> parse cd s = Returns None) \<longrightarrow>
      (\<exists>v. factory w = (Returns v, snd (factory w)) \<and>
           getOrSet cd key factory options r w =
             (Returns v,
              snd (cache_set cd key v options (snd (cache_get cd key (namespace options) r))),
              snd (factory w))) \<and>
      snd (getOrSet_calls cd key factory options calls r w) =
        ((\<lambda>w. snd (factory w)) ^^ length calls) w)"
proof -
  have a: "keyPrefix ra @ buildKey key ns \<notin> fst ` set (entries ra) \<longrightarrow>
      fst (cache_get cd key ns ra) = Returns None"
  proof
    assume "keyPrefix ra @ buildKey key ns \<notin> fst ` set (entries ra)"
    then have "keyPrefix ra @ buildKey key ns \<notin> fst ` set (live ra)"
      by (auto simp: live_def)
    then have "map_of (live ra) (keyPrefix ra @ buildKey key ns) = None"
      by (simp add: map_of_eq_None_iff)
    then have "null_entry cd (keyPrefix ra @ buildKey key ns) ra" by (simp add: null_entry_def)
    then show "fst (cache_get cd key ns ra) = Returns None" by (rule null_entry_miss)
  qed
  have b: "(\<forall>s e. (keyPrefix rb @ buildKey key ns, s, e) \<in> set (entries rb) \<longrightarrow> e \<le> clock rb) \<longrightarrow>
      fst (cache_get cd key ns rb) = Returns None"
  proof
    assume "\<forall>s e. (keyPrefix rb @ buildKey key ns, s, e) \<in> set (entries rb) \<longrightarrow> e \<le> clock rb"
    then have "keyPrefix rb @ buildKey key ns \<notin> fst ` set (live rb)"
      by (fastforce simp: live_def)
    then have "map_of (live rb) (keyPrefix rb @ buildKey key ns) = None"
      by (simp add: map_of_eq_None_iff)
    then have "null_entry cd (keyPrefix rb @ buildKey key ns) rb" by (simp add: null_entry_def)
    then show "fst (cache_get cd key ns rb) = Returns None" by (rule null_entry_miss)
  qed
  have c: "(case faults rc of [] \<Rightarrow> False | f # fs \<Rightarrow> f) \<longrightarrow>
      fst (cache_get cd key ns rc) = Returns None"
    by (simp add: cache_get_def redis_get_def next_fault_def Let_def)
  have d: "(\<exists>e. map_of (live rd) (keyPrefix rd @ buildKey key ns) = Some (s, e)) \<and> parse cd s = Returns None \<longrightarrow>
      fst (cache_get cd key ns rd) = Returns None"
  proof
    assume "(\<exists>e. map_of (live rd) (keyPrefix rd @ buildKey key ns) = Some (s, e)) \<and> parse cd s = Returns None"
    then have "null_entry cd (keyPrefix rd @ buildKey key ns) rd" by (auto simp: null_entry_def)
    then show "fst (cache_get cd key ns rd) = Returns None" by (rule null_entry_miss)
  qed
  have e: "distinct (map fst (entries r)) \<and>
    null_entry cd (keyPrefix r @ buildKey key (namespace options)) r \<and>
    (\<forall>w. \<exists>v s w'. factory w = (Returns v, w') \<and> stringify cd v = Returns s \<and> parse cd s = Returns None) \<longrightarrow>
      (\<exists>v. factory w = (Returns v, snd (factory w)) \<and>
           getOrSet cd key factory options r w =
             (Returns v,
              snd (cache_set cd key v options (snd (cache_get cd key (namespace options) r))),
              snd (factory w))) \<and>
      snd (getOrSet_calls cd key factory options calls r w) =
        ((\<lambda>w. snd (factory w)) ^^ length calls) w"
  proof (intro impI, elim conjE)
    assume h: "distinct (map fst (entries r))"
      "null_entry cd (keyPrefix r @ buildKey key (namespace options)) r"
      "\<forall>w. \<exists>v s w'. factory w = (Returns v, w') \<and> stringify cd v = Returns s \<and> parse cd s = Returns None"
    obtain v w' where f: "factory w = (Returns v, w')" using h(3) by blast
    have miss: "fst (cache_get cd key (namespace options) r) = Returns None"
      using null_entry_miss[OF h(2)] .
    have one: "\<exists>v. factory w = (Returns v, snd (factory w)) \<and>
           getOrSet cd key factory options r w =
             (Returns v,
              snd (cache_set cd key v options (snd (cache_get cd key (namespace options) r))),
              snd (factory w))"
      using getOrSet_miss_step[where factory = factory and w = w, OF miss f] f by auto
    from one getOrSet_calls_recompute[OF h(3) h(1) h(2), of calls w]
    show "(\<exists>v. factory w = (Returns v, snd (factory w)) \<and>
           getOrSet cd key factory options r w =
             (Returns v,
              snd (cache_set cd key v options (snd (cache_get cd key (namespace options) r))),
              snd (factory w))) \<and>
      snd (getOrSet_calls cd key factory options calls r w) =
        ((\<lambda>w. snd (factory w)) ^^ length calls) w"
      by blast
  qed
  from a b c d e show ?thesis by blast
qed

lemma number_codec_fields:
  "stringify number_codec None = Returns ''null''"
  "stringify number_codec (Some 42) = Returns ''42''"
  "parse number_codec ''null'' = Returns None"
  "parse number_codec ''7'' = Returns (Some 7)"
  by (simp_all add: number_codec_def digit_char_def is_digit_def nat_of_digits_def)

theorem getOrSet_on_miss_witness:
  "fst (cache_get number_codec ''stats:global'' (Some ''tasks'') (onModuleInit [] 1000 [])) = Returns None \<and>
   getOrSet number_codec ''stats:global'' (\<lambda>n::nat. (Returns (Some 42), n + 1))
       \<lparr>ttl = Some 600, namespace = Some ''tasks''\<rparr> (onModuleInit [] 1000 []) 0 =
     (Returns (Some 42),
      \<lparr>entries = [(''cache:tasks:stats:global'', ''42'', 1600)], clock = 1000, faults = [],
       keyPrefix = ''cache:''\<rparr>, 1) \<and>
   getOrSet number_codec ''stats:global'' (\<lambda>n::nat. (Throws (Error ''query failed''), n + 1))
       \<lparr>ttl = Some 600, namespace = Some ''tasks''\<rparr> (onModuleInit [] 1000 []) 0 =
     (Throws (Error ''query failed''),
      \<lparr>entries = [], clock = 1000, faults = [], keyPrefix = ''cache:''\<rparr>, 1) \<and>
   fst (cache_get number_codec ''k'' None
          (onModuleInit [(''cache:k'', ''7'', 2000)] 1000 [True])) = Returns None \<and>
   fst (cache_set number_codec ''k'' None \<lparr>ttl = Some 600, namespace = Some ''tasks''\<rparr>
          (onModuleInit [(''cache:k'', ''7'', 2000)] 1000 [True])) = Returns ()"
proof -
  let ?o = "\<lparr>ttl = Some 600, namespace = Some ''tasks''\<rparr>"
  let ?r = "onModuleInit [] 1000 []"
  have miss: "fst (cache_get number_codec ''stats:global'' (namespace ?o) ?r) = Returns None"
    by (simp add: cache_get_def redis_get_def next_fault_def onModuleInit_def live_def buildKey_def)
  have g: "snd (cache_get number_codec ''stats:global'' (Some ''tasks'') ?r) =
      \<lparr>entries = [], clock = 1000, faults = [], keyPrefix = ''cache:''\<rparr>"
    by (simp add: cache_get_state onModuleInit_def live_def)
  have st: "snd (cache_set number_codec ''stats:global'' (Some 42) ?o
        \<lparr>entries = [], clock = 1000, faults = [], keyPrefix = ''cache:''\<rparr>) =
      \<lparr>entries = [(''cache:tasks:stats:global'', ''42'', 1600)], clock = 1000, faults = [],
       keyPrefix = ''cache:''\<rparr>"
    by (simp add: cache_set_state number_codec_fields set_seconds_def live_def buildKey_def)
  from getOrSet_on_miss[OF miss, where factory = "\<lambda>n::nat. (Returns (Some 42), n + 1)" and w = 0
      and cd' = number_codec and key' = "''k''" and ns' = None and st = "onModuleInit [(''cache:k'', ''7'', 2000)] 1000 [True]" and v' = None
      and options' = "\<lparr>ttl = Some 600, namespace = Some ''tasks''\<rparr>"]
  have one: "getOrSet number_codec ''stats:global'' (\<lambda>n::nat. (Returns (Some 42), n + 1)) ?o ?r 0 =
     (Returns (Some 42),
      \<lparr>entries = [(''cache:tasks:stats:global'', ''42'', 1600)], clock = 1000, faults = [],
       keyPrefix = ''cache:''\<rparr>, 1)"
    by (simp add: g st)
  from getOrSet_on_miss[OF miss, where factory = "\<lambda>n::nat. (Throws (Error ''query failed''), n + 1)" and w = 0
      and cd' = number_codec and key' = "''k''" and ns' = None and st = "onModuleInit [(''cache:k'', ''7'', 2000)] 1000 [True]" and v' = None
      and options' = "\<lparr>ttl = Some 600, namespace = Some ''tasks''\<rparr>"]
  have two: "getOrSet number_codec ''stats:global'' (\<lambda>n::nat. (Throws (Error ''query failed''), n + 1)) ?o ?r 0 =
     (Throws (Error ''query failed''),
      \<lparr>entries = [], clock = 1000, faults = [], keyPrefix = ''cache:''\<rparr>, 1)"
    by (simp add: g)
  have f: "(case faults (onModuleInit [(''cache:k'', ''7'', 2000)] 1000 [True]) of [] \<Rightarrow> False | f # fs \<Rightarrow> f)"
    by (simp add: onModuleInit_def)
  from getOrSet_on_miss[OF miss, where factory = "\<lambda>n::nat. (Throws (Error ''query failed''), n + 1)" and w = 0
      and cd' = number_codec and key' = "''k''" and ns' = None and st = "onModuleInit [(''cache:k'', ''7'', 2000)] 1000 [True]" and v' = None
      and options' = "\<lparr>ttl = Some 600, namespace = Some ''tasks''\<rparr>"] f
  have three: "fst (cache_get number_codec ''k'' None
          (onModuleInit [(''cache:k'', ''7'', 2000)] 1000 [True])) = Returns None \<and>
      fst (cache_set number_codec ''k'' None \<lparr>ttl = Some 600, namespace = Some ''tasks''\<rparr>
          (onModuleInit [(''cache:k'', ''7'', 2000)] 1000 [True])) = Returns ()"
    by auto
  from miss one two three show ?thesis by simp
qed

theorem null_value_is_never_cached_witness:
  "fst (cache_get number_codec ''k'' (Some ''tasks'') (onModuleInit [] 1000 [])) = Returns None \<and>
   fst (cache_get number_codec ''k'' (Some ''tasks'')
          (onModuleInit [(''cache:tasks:k'', ''7'', 900)] 1000 [])) = Returns None \<and>
   fst (cache_get number_codec ''k'' (Some ''tasks'')
          (onModuleInit [(''cache:tasks:k'', ''7'', 2000)] 1000 [True])) = Returns None \<and>
   fst (cache_get number_codec ''k'' (Some ''tasks'')
          (onModuleInit [(''cache:tasks:k'', ''null'', 2000)] 1000 [])) = Returns None \<and>
   fst (cache_get number_codec ''k'' (Some ''tasks'')
          (onModuleInit [(''cache:tasks:k'', ''7'', 2000)] 1000 [])) = Returns (Some 7) \<and>
   snd (getOrSet_calls number_codec ''k'' (\<lambda>n::nat. (Returns None, n + 1))
          \<lparr>ttl = None, namespace = Some ''tasks''\<rparr>
          [(0, []), (10, []), (500, [True, False])] (onModuleInit [] 1000 []) 0) = 3"
proof -
  let ?ra = "onModuleInit [] 1000 []"
  let ?rb = "onModuleInit [(''cache:tasks:k'', ''7'', 900)] 1000 []"
  let ?rc = "onModuleInit [(''cache:tasks:k'', ''7'', 2000)] 1000 [True]"
  let ?rd = "onModuleInit [(''cache:tasks:k'', ''null'', 2000)] 1000 []"
  let ?o = "\<lparr>ttl = None, namespace = Some ''tasks''\<rparr>"
  let ?f = "\<lambda>n::nat. (Returns (None :: nat option), n + 1)"
  have ha: "keyPrefix ?ra @ buildKey ''k'' (Some ''tasks'') \<notin> fst ` set (entries ?ra)"
    by (simp add: onModuleInit_def)
  have hb: "\<forall>s e. (keyPrefix ?rb @ buildKey ''k'' (Some ''tasks''), s, e) \<in> set (entries ?rb) \<longrightarrow> e \<le> clock ?rb"
    by (simp add: onModuleInit_def)
  have hc: "(case faults ?rc of [] \<Rightarrow> False | f # fs \<Rightarrow> f)"
    by (simp add: onModuleInit_def)
  have hd: "(\<exists>e. map_of (live ?rd) (keyPrefix ?rd @ buildKey ''k'' (Some ''tasks'')) = Some (''null'', e)) \<and>
      parse number_codec ''null'' = Returns None"
    by (simp add: onModuleInit_def live_def buildKey_def number_codec_fields)
  have he: "distinct (map fst (entries ?ra)) \<and>
      null_entry number_codec (keyPrefix ?ra @ buildKey ''k'' (namespace ?o)) ?ra \<and>
      (\<forall>w. \<exists>v s w'. ?f w = (Returns v, w') \<and> stringify number_codec v = Returns s \<and>
          parse number_codec s = Returns None)"
    by (simp add: onModuleInit_def null_entry_def live_def number_codec_fields)
  have hit: "fst (cache_get number_codec ''k'' (Some ''tasks'')
          (onModuleInit [(''cache:tasks:k'', ''7'', 2000)] 1000 [])) = Returns (Some 7)"
    by (simp add: cache_get_def redis_get_def next_fault_def onModuleInit_def live_def buildKey_def
        number_codec_fields)
  have n3: "((\<lambda>w::nat. snd (?f w)) ^^ length [(0::nat, []), (10, []), (500, [True, False])]) 0 = 3"
    by simp
  from null_value_is_never_cached[of ?ra "''k''" "Some ''tasks''" number_codec ?rb ?rc ?rd "''null''"
      ?ra ?o ?f 0 "[(0, []), (10, []), (500, [True, False])]"] ha hb hc hd he hit n3
  show ?thesis by simp
qed

lemma length_delete_distinct:
  "distinct (map fst es) \<Longrightarrow> k \<in> fst ` set es \<Longrightarrow> Suc (length (AList.delete k es)) = length es"
proof (induction es)
  case Nil
  then show ?case by simp
next
  case (Cons x xs)
  show ?case
  proof (cases "fst x = k")
    case True
    with Cons.prems have "k \<notin> fst ` set xs" by auto
    then have "AList.delete k xs = xs" by simp
    with True show ?thesis by simp
  next
    case False
    with Cons show ?thesis by auto
  qed
qed

lemma del_each_result:
  "distinct (map fst es) \<Longrightarrow>
   distinct (map fst (snd (del_each ks n es))) \<and>
   set (snd (del_each ks n es)) \<subseteq> set es \<and>
   fst (del_each ks n es) + length (snd (del_each ks n es)) = n + length es \<and>
   (\<forall>K. map_of (snd (del_each ks n es)) K = (if K \<in> set ks then None else map_of es K))"
proof (induction ks arbitrary: n es)
  case Nil
  then show ?case by simp
next
  case (Cons k ks)
  show ?case
  proof (cases "k \<in> fst ` set es")
    case True
    have d: "distinct (map fst (AList.delete k es))" using Cons.prems by (rule distinct_delete)
    have l: "Suc (length (AList.delete k es)) = length es"
      using length_delete_distinct[OF Cons.prems True] .
    have s: "set (AList.delete k es) \<subseteq> set es" by (auto simp: AList.delete_eq)
    from Cons.IH[OF d, of "n + 1"] True l s show ?thesis
      by (auto simp: delete_conv')
  next
    case False
    then have "map_of es k = None" by (simp add: map_of_eq_None_iff)
    with Cons.IH[OF Cons.prems, of n] False show ?thesis by auto
  qed
qed

lemma live_of_live: "live (r\<lparr>entries := live r, faults := fs\<rparr>) = live r"
  by (simp add: live_def)

lemma deletePattern_unfold:
  "deletePattern pattern ns r =
     (let listed = filter (glob_match (buildKey pattern ns)) (map fst (live r));
          D = del_each (map (\<lambda>k. keyPrefix r @ k) listed) 0 (live r) in
      if (case faults r of [] \<Rightarrow> False | f # fs \<Rightarrow> f) \<or> listed = []
      then (Returns 0, r\<lparr>entries := live r, faults := tl (faults r)\<rparr>)
      else if (case tl (faults r) of [] \<Rightarrow> False | f # fs \<Rightarrow> f)
      then (Returns 0, r\<lparr>entries := live r, faults := tl (tl (faults r))\<rparr>)
      else (Returns (fst D), r\<lparr>entries := snd D, faults := tl (tl (faults r))\<rparr>))"
proof -
  define listed where "listed = filter (glob_match (buildKey pattern ns)) (map fst (live r))"
  define D where "D = del_each (map (\<lambda>k. keyPrefix r @ k) listed) 0 (live r)"
  define fault1 where "fault1 = (case faults r of [] \<Rightarrow> False | f # fs \<Rightarrow> f)"
  define fault2 where "fault2 = (case tl (faults r) of [] \<Rightarrow> False | f # fs \<Rightarrow> f)"
  define r1 where "r1 = r\<lparr>entries := live r, faults := tl (faults r)\<rparr>"
  define r2 where "r2 = r\<lparr>entries := live r, faults := tl (tl (faults r))\<rparr>"
  have nf1: "next_fault r = (fault1, r1)" by (simp add: next_fault_def fault1_def r1_def)
  have nf2: "next_fault r1 = (fault2, r2)"
    by (simp add: next_fault_def fault2_def r1_def r2_def live_of_live)
  have k: "redis_keys (buildKey pattern ns) r =
      (if fault1 then (Throws connection_error, r1) else (Returns listed, r1))"
    by (simp add: redis_keys_def nf1 listed_def r1_def)
  have d: "redis_del listed r1 =
      (if fault2 then (Throws connection_error, r2) else (Returns (fst D), r2\<lparr>entries := snd D\<rparr>))"
    by (simp add: redis_del_def nf2 D_def r2_def split: prod.splits)
  have "deletePattern pattern ns r =
      (if fault1 \<or> listed = [] then (Returns 0, r1)
       else if fault2 then (Returns 0, r2)
       else (Returns (fst D), r2\<lparr>entries := snd D\<rparr>))"
    unfolding deletePattern_def Let_def k
    by (cases fault1; cases "listed = []"; cases fault2; simp add: d)
  then show ?thesis
    unfolding Let_def listed_def[symmetric] D_def[symmetric] fault1_def fault2_def r1_def r2_def
    by simp
qed

lemma deletePattern_effect:
  assumes "distinct (map fst (entries r))"
  shows "\<exists>n r'. deletePattern pattern ns r = (Returns n, r') \<and>
           set (entries r') \<subseteq> set (live r) \<and>
           n + length (entries r') = length (live r) \<and>
           clock r' = clock r \<and> keyPrefix r' = keyPrefix r \<and>
           (\<forall>key ns2 fs. \<not> glob_match (buildKey pattern ns) (buildKey key ns2) \<longrightarrow>
              fst (cache_get cd key ns2 (r'\<lparr>faults := fs\<rparr>)) =
              fst (cache_get cd key ns2 (r\<lparr>faults := fs\<rparr>)))"
proof -
  define listed where "listed = filter (glob_match (buildKey pattern ns)) (map fst (live r))"
  define D where "D = del_each (map (\<lambda>k. keyPrefix r @ k) listed) 0 (live r)"
  note dl = distinct_live[OF assms]
  note de = del_each_result[OF dl, of "map (\<lambda>k. keyPrefix r @ k) listed" 0, folded D_def]
  have u: "deletePattern pattern ns r =
      (if (case faults r of [] \<Rightarrow> False | f # fs \<Rightarrow> f) \<or> listed = []
       then (Returns 0, r\<lparr>entries := live r, faults := tl (faults r)\<rparr>)
       else if (case tl (faults r) of [] \<Rightarrow> False | f # fs \<Rightarrow> f)
       then (Returns 0, r\<lparr>entries := live r, faults := tl (tl (faults r))\<rparr>)
       else (Returns (fst D), r\<lparr>entries := snd D, faults := tl (tl (faults r))\<rparr>))"
    unfolding deletePattern_unfold Let_def listed_def[symmetric] D_def[symmetric] ..
  obtain n r' where dp: "deletePattern pattern ns r = (Returns n, r')"
    unfolding u by (cases "(case faults r of [] \<Rightarrow> False | f # fs \<Rightarrow> f) \<or> listed = []";
        cases "(case tl (faults r) of [] \<Rightarrow> False | f # fs \<Rightarrow> f)"; simp)
  have sub: "set (entries r') \<subseteq> set (live r)" and cnt: "n + length (entries r') = length (live r)"
    and ck: "clock r' = clock r" and kp: "keyPrefix r' = keyPrefix r"
    and fr: "\<forall>K. K \<notin> set (map (\<lambda>k. keyPrefix r @ k) listed) \<longrightarrow> map_of (entries r') K = map_of (live r) K"
    using dp de unfolding u
    by (auto split: if_splits)
  have frame: "\<forall>key ns2 fs. \<not> glob_match (buildKey pattern ns) (buildKey key ns2) \<longrightarrow>
              fst (cache_get cd key ns2 (r'\<lparr>faults := fs\<rparr>)) =
              fst (cache_get cd key ns2 (r\<lparr>faults := fs\<rparr>))"
  proof (intro allI impI)
    fix key ns2 fs
    assume nm: "\<not> glob_match (buildKey pattern ns) (buildKey key ns2)"
    let ?K = "keyPrefix r @ buildKey key ns2"
    have "?K \<notin> set (map (\<lambda>k. keyPrefix r @ k) listed)"
      using nm by (auto simp: listed_def)
    then have m: "map_of (entries r') ?K = map_of (live r) ?K" using fr by blast
    have l1: "live (r'\<lparr>faults := fs\<rparr>) = entries r'"
      using sub ck by (auto simp: live_def filter_id_conv)
    have l2: "live (r\<lparr>faults := fs\<rparr>) = live r" by (simp add: live_def)
    show "fst (cache_get cd key ns2 (r'\<lparr>faults := fs\<rparr>)) =
              fst (cache_get cd key ns2 (r\<lparr>faults := fs\<rparr>))"
      by (simp add: cache_get_result l1 l2 kp m)
  qed
  from dp sub cnt ck kp frame show ?thesis by blast
qed

text \<open>
  With a client that has no key prefix, and when neither command fails, the keys that
  match the pattern are gone after \<open>deletePattern\<close>.
\<close>

lemma deletePattern_without_prefix:
  assumes "distinct (map fst (entries r))" and "keyPrefix r = []"
    and "\<not> (case faults r of [] \<Rightarrow> False | f # fs \<Rightarrow> f)"
    and "\<not> (case tl (faults r) of [] \<Rightarrow> False | f # fs \<Rightarrow> f)"
    and "glob_match (buildKey pattern ns) (buildKey key ns2)"
  shows "fst (cache_get cd key ns2 ((snd (deletePattern pattern ns r))\<lparr>faults := fs\<rparr>)) = Returns None"
proof -
  define listed where "listed = filter (glob_match (buildKey pattern ns)) (map fst (live r))"
  define D where "D = del_each (map (\<lambda>k. keyPrefix r @ k) listed) 0 (live r)"
  note dl = distinct_live[OF assms(1)]
  note de = del_each_result[OF dl, of "map (\<lambda>k. keyPrefix r @ k) listed" 0, folded D_def]
  have u: "deletePattern pattern ns r =
      (if (case faults r of [] \<Rightarrow> False | f # fs \<Rightarrow> f) \<or> listed = []
       then (Returns 0, r\<lparr>entries := live r, faults := tl (faults r)\<rparr>)
       else if (case tl (faults r) of [] \<Rightarrow> False | f # fs \<Rightarrow> f)
       then (Returns 0, r\<lparr>entries := live r, faults := tl (tl (faults r))\<rparr>)
       else (Returns (fst D), r\<lparr>entries := snd D, faults := tl (tl (faults r))\<rparr>))"
    unfolding deletePattern_unfold Let_def listed_def[symmetric] D_def[symmetric] ..
  let ?r' = "snd (deletePattern pattern ns r)"
  let ?K = "buildKey key ns2"
  have none: "map_of (entries ?r') ?K = None"
  proof (cases "listed = []")
    case True
    then have "?K \<notin> fst ` set (live r)" using assms(5) by (force simp: listed_def filter_empty_conv)
    then have "map_of (live r) ?K = None" by (simp add: map_of_eq_None_iff)
    then show ?thesis using True assms(3)
      by (simp add: u)
  next
    case False
    have r': "entries ?r' = snd D"
      using False assms(3,4) by (simp add: u)
    show ?thesis
    proof (cases "?K \<in> set listed")
      case True
      then show ?thesis using de assms(2) by (simp add: r')
    next
      case False
      then have "?K \<notin> fst ` set (live r)" using assms(5) by (auto simp: listed_def)
      then have "map_of (live r) ?K = None" by (simp add: map_of_eq_None_iff)
      then show ?thesis using de assms(2) by (simp add: r')
    qed
  qed
  have sub: "set (entries ?r') \<subseteq> set (live r)" and ck: "clock ?r' = clock r" and kp: "keyPrefix ?r' = []"
    using de assms(2) by (auto simp: u)
  have l1: "live (?r'\<lparr>faults := fs\<rparr>) = entries ?r'"
    using sub ck by (auto simp: live_def filter_id_conv)
  show ?thesis by (simp add: cache_get_result l1 kp none)
qed

text \<open>
  \<open>deletePattern\<close> is fail-open: when the listing command fails, it returns 0 and the
  entries stay.
\<close>

lemma deletePattern_listing_fails:
  "fst (deletePattern ''list:*'' (Some ''tasks'')
          \<lparr>entries = [(''cache:tasks:list:a'', ''7'', 1300)], clock = 1000, faults = [True],
           keyPrefix = ''cache:''\<rparr>) = Returns 0 \<and>
   entries (snd (deletePattern ''list:*'' (Some ''tasks'')
          \<lparr>entries = [(''cache:tasks:list:a'', ''7'', 1300)], clock = 1000, faults = [True],
           keyPrefix = ''cache:''\<rparr>)) = [(''cache:tasks:list:a'', ''7'', 1300)]"
  by (simp add: deletePattern_unfold Let_def live_def buildKey_def)

text \<open>
  C4 (the code departs from the claim): on a store without faults, the key \<open>list:a\<close>
  is set in the namespace \<open>tasks\<close> and matches the pattern \<open>list:*\<close> of that
  namespace. \<open>cache_set\<close> stores it under the name \<open>cache:tasks:list:a\<close>, the client's
  prefix included, while the listing is asked for \<open>tasks:list:*\<close>, without the prefix:
  nothing is listed, \<open>deletePattern\<close> returns 0 and deletes nothing, and a \<open>cache_get\<close>
  on the key afterwards still returns the value.
\<close>

theorem deletePattern_leaves_matching_key:
  "glob_match (buildKey ''list:*'' (Some ''tasks'')) (buildKey ''list:a'' (Some ''tasks'')) \<and>
   snd (cache_set number_codec ''list:a'' (Some 7) \<lparr>ttl = None, namespace = Some ''tasks''\<rparr>
          (onModuleInit [] 1000 [])) =
     \<lparr>entries = [(''cache:tasks:list:a'', ''7'', 1300)], clock = 1000, faults = [],
      keyPrefix = ''cache:''\<rparr> \<and>
   deletePattern ''list:*'' (Some ''tasks'')
     \<lparr>entries = [(''cache:tasks:list:a'', ''7'', 1300)], clock = 1000, faults = [],
      keyPrefix = ''cache:''\<rparr> =
     (Returns 0,
      \<lparr>entries = [(''cache:tasks:list:a'', ''7'', 1300)], clock = 1000, faults = [],
       keyPrefix = ''cache:''\<rparr>) \<and>
   fst (cache_get number_codec ''list:a'' (Some ''tasks'')
          (snd (deletePattern ''list:*'' (Some ''tasks'')
             (snd (cache_set number_codec ''list:a'' (Some 7) \<lparr>ttl = None, namespace = Some ''tasks''\<rparr>
                     (onModuleInit [] 1000 [])))))) = Returns (Some 7)"
proof -
  have s1: "snd (cache_set number_codec ''list:a'' (Some 7) \<lparr>ttl = None, namespace = Some ''tasks''\<rparr>
                  (onModuleInit [] 1000 [])) =
      \<lparr>entries = [(''cache:tasks:list:a'', ''7'', 1300)], clock = 1000, faults = [],
       keyPrefix = ''cache:''\<rparr>"
    by (simp add: cache_set_state onModuleInit_def number_codec_def set_seconds_def defaultTtl_def
        live_def buildKey_def digit_char_def)
  have g: "glob_match (buildKey ''list:*'' (Some ''tasks'')) (buildKey ''list:a'' (Some ''tasks''))"
    by (simp add: buildKey_def)
  have p: "parse number_codec ''7'' = Returns (Some 7)"
    by (simp add: number_codec_def is_digit_def nat_of_digits_def)
  have a: "deletePattern ''list:*'' (Some ''tasks'')
        \<lparr>entries = [(''cache:tasks:list:a'', ''7'', 1300)], clock = 1000, faults = [],
         keyPrefix = ''cache:''\<rparr> =
      (Returns 0, \<lparr>entries = [(''cache:tasks:list:a'', ''7'', 1300)], clock = 1000, faults = [],
         keyPrefix = ''cache:''\<rparr>)"
    by (simp add: deletePattern_unfold Let_def live_def buildKey_def)
  have c: "fst (cache_get number_codec ''list:a'' (Some ''tasks'')
        \<lparr>entries = [(''cache:tasks:list:a'', ''7'', 1300)], clock = 1000, faults = [],
         keyPrefix = ''cache:''\<rparr>) = Returns (Some 7)"
    by (simp add: cache_get_result live_def buildKey_def p)
  show ?thesis
    using g by (simp add: s1 a c)
qed

end
